theory Spec2Isabelle
  imports
    Complex_Main
    "HOL-Library.Word"
    "HOL-Library.Multiset"
    "HOL-Library.List_Lexorder"
    "HOL-Library.Product_Lexorder"
begin

unbundle bit_operations_syntax

section \<open>Python strings\<close>

text \<open>
  A Python \<open>str\<close> is a sequence of Unicode code points: \<open>len\<close> counts code points and
  comparison of strings goes code point by code point. A string is therefore a list
  of code points (natural numbers); the order of \<open>HOL-Library.List_Lexorder\<close> on such
  lists is Python's string order. \<open>ascii\<close> reads a literal of the source.
\<close>

type_synonym str = "nat list"

definition ascii :: "string \<Rightarrow> str" where
  "ascii s = map of_char s"

text \<open>\<open>str.isspace\<close> of one character (the table of CPython, Unicode 14).\<close>

definition isspace :: "nat \<Rightarrow> bool" where
  "isspace c \<longleftrightarrow>
     (9 \<le> c \<and> c \<le> 13) \<or> (28 \<le> c \<and> c \<le> 32) \<or> c = 133 \<or> c = 160 \<or> c = 5760 \<or>
     (8192 \<le> c \<and> c \<le> 8202) \<or> c = 8232 \<or> c = 8233 \<or> c = 8239 \<or> c = 8287 \<or> c = 12288"

definition lstrip :: "str \<Rightarrow> str" where
  "lstrip s = dropWhile isspace s"

definition rstrip :: "str \<Rightarrow> str" where
  "rstrip s = rev (dropWhile isspace (rev s))"

definition strip :: "str \<Rightarrow> str" where
  "strip s = rstrip (lstrip s)"

text \<open>\<open>s.rstrip("\n")\<close>: only line feeds are removed.\<close>

definition rstrip_nl :: "str \<Rightarrow> str" where
  "rstrip_nl s = rev (dropWhile (\<lambda>c. c = 10) (rev s))"

definition startswith :: "str \<Rightarrow> str \<Rightarrow> bool" where
  "startswith s p \<longleftrightarrow> take (length p) s = p"

definition endswith :: "str \<Rightarrow> str \<Rightarrow> bool" where
  "endswith s p \<longleftrightarrow> length p \<le> length s \<and> drop (length s - length p) s = p"

text \<open>\<open>sub in s\<close> for strings.\<close>

fun contains :: "str \<Rightarrow> str \<Rightarrow> bool" where
  "contains [] sub = (sub = [])"
| "contains (c # cs) sub = (startswith (c # cs) sub \<or> contains cs sub)"

text \<open>\<open>sep.join(xs)\<close>.\<close>

fun join :: "str \<Rightarrow> str list \<Rightarrow> str" where
  "join sep [] = []"
| "join sep [x] = x"
| "join sep (x # y # ys) = x @ sep @ join sep (y # ys)"

text \<open>
  The lines a text file object yields when iterated: each line keeps its terminating line
  feed, the last line has one only if the text ends with one. (The file is opened in
  text mode, so every line ending has already been translated to a line feed.)
\<close>

fun readlines_from :: "str \<Rightarrow> str \<Rightarrow> str list" where
  "readlines_from cur [] = (if cur = [] then [] else [cur])"
| "readlines_from cur (c # cs) =
     (if c = 10 then (cur @ [c]) # readlines_from [] cs else readlines_from (cur @ [c]) cs)"

definition readlines :: "str \<Rightarrow> str list" where
  "readlines text = readlines_from [] text"

text \<open>\<open>str.splitlines()\<close>: the line boundaries of CPython; \<open>\r\n\<close> is one boundary.\<close>

definition is_linebreak :: "nat \<Rightarrow> bool" where
  "is_linebreak c \<longleftrightarrow>
     (10 \<le> c \<and> c \<le> 13) \<or> (28 \<le> c \<and> c \<le> 30) \<or> c = 133 \<or> c = 8232 \<or> c = 8233"

fun splitlines_from :: "str \<Rightarrow> str \<Rightarrow> str list" where
  "splitlines_from cur [] = (if cur = [] then [] else [cur])"
| "splitlines_from cur [c] =
     (if is_linebreak c then [cur] else [cur @ [c]])"
| "splitlines_from cur (c # d # cs) =
     (if c = 13 \<and> d = 10 then cur # splitlines_from [] cs
      else if is_linebreak c then cur # splitlines_from [] (d # cs)
      else splitlines_from (cur @ [c]) (d # cs))"

definition splitlines :: "str \<Rightarrow> str list" where
  "splitlines s = splitlines_from [] s"

section \<open>Exceptions and files\<close>

text \<open>
  The exceptions that can leave the functions modelled here. \<open>JsonKeyDuplicateError\<close>
  carries its message.
\<close>

datatype exn =
    JsonKeyDuplicateError str
  | UnicodeDecodeError
  | UnicodeEncodeError
  | ValueError
  | FileNotFoundError

text \<open>
  What reading a file as UTF-8 text delivers: either the whole decoded text, or, for a
  file with a byte sequence that is not UTF-8, the lines the file iterator yields before
  it raises \<open>UnicodeDecodeError\<close>.
\<close>

datatype file_data =
    Decoded str
  | Undecodable "str list"

section \<open>md.py: the section parser\<close>

text \<open>A \<open>dict\<close> keeps insertion order: an association list with distinct keys.\<close>

type_synonym ('k, 'v) dict = "('k \<times> 'v) list"

definition dict_keys :: "('k, 'v) dict \<Rightarrow> 'k list" where
  "dict_keys d = map fst d"

definition dict_has :: "('k, 'v) dict \<Rightarrow> 'k \<Rightarrow> bool" where
  "dict_has d k \<longleftrightarrow> k \<in> set (map fst d)"

definition dict_get :: "('k, 'v) dict \<Rightarrow> 'k \<Rightarrow> 'v option" where
  "dict_get d k = map_of d k"

text \<open>\<open>d[k] = v\<close>: an existing key keeps its position, a new key goes to the end.\<close>

fun dict_set :: "('k, 'v) dict \<Rightarrow> 'k \<Rightarrow> 'v \<Rightarrow> ('k, 'v) dict" where
  "dict_set [] k v = [(k, v)]"
| "dict_set ((k', v') # d) k v =
     (if k' = k then (k, v) # d else (k', v') # dict_set d k v)"

text \<open>
  The body of the \<open>for raw_line in f\<close> loop of \<open>md_to_json\<close>, over the state
  \<open>(result, current_key, buffer)\<close>. The loop stops at the first duplicate key.
\<close>

fun md_scan ::
  "(str, str) dict \<Rightarrow> str option \<Rightarrow> str list \<Rightarrow> str list
     \<Rightarrow> exn + ((str, str) dict \<times> str option \<times> str list)" where
  "md_scan result current_key buffer [] = Inr (result, current_key, buffer)"
| "md_scan result current_key buffer (raw_line # rest) =
     (let line = rstrip_nl raw_line;
          stripped = lstrip line
      in if startswith stripped (ascii ''# '') then
           (let key = strip (drop 2 stripped);
                result' = (case current_key of
                             None \<Rightarrow> result
                           | Some ck \<Rightarrow> dict_set result ck (join [10] buffer));
                buffer' = (case current_key of None \<Rightarrow> buffer | Some ck \<Rightarrow> [])
            in if dict_has result' key
               then Inl (JsonKeyDuplicateError (ascii ''Duplicate key found: '' @ key))
               else md_scan result' (Some key) buffer' rest)
         else (case current_key of
                 None \<Rightarrow> md_scan result current_key buffer rest
               | Some ck \<Rightarrow> md_scan result current_key (buffer @ [line]) rest))"

text \<open>The flush after the loop.\<close>

definition md_flush :: "(str, str) dict \<times> str option \<times> str list \<Rightarrow> (str, str) dict" where
  "md_flush st =
     (case st of (result, current_key, buffer) \<Rightarrow>
        (case current_key of
           None \<Rightarrow> result
         | Some ck \<Rightarrow> dict_set result ck (join [10] buffer)))"

text \<open>
  \<open>md_to_json\<close> on what is found at the path (\<open>None\<close>: there is no such file, and
  \<open>open\<close> raises).
\<close>

definition md_to_json_file :: "file_data option \<Rightarrow> exn + (str, str) dict" where
  "md_to_json_file f =
     (case f of
        None \<Rightarrow> Inl FileNotFoundError
      | Some (Decoded text) \<Rightarrow>
          (case md_scan [] None [] (readlines text) of
             Inl e \<Rightarrow> Inl e
           | Inr st \<Rightarrow> Inr (md_flush st))
      | Some (Undecodable ls) \<Rightarrow>
          (case md_scan [] None [] ls of
             Inl e \<Rightarrow> Inl e
           | Inr st \<Rightarrow> Inl UnicodeDecodeError))"


section \<open>Numbers and strings\<close>

text \<open>
  The first code point of each block of ten Unicode decimal digits (category Nd, Unicode
  14): the digit at offset \<open>k\<close> of a block has the value \<open>k\<close>. These are the characters
  that \<open>int\<close> reads as digits.
\<close>

definition decimal_blocks :: "nat list" where
  "decimal_blocks =
     [48, 1632, 1776, 1984, 2406, 2534, 2662, 2790, 2918, 3046, 3174, 3302, 3430, 3558,
      3664, 3792, 3872, 4160, 4240, 6112, 6160, 6470, 6608, 6784, 6800, 6992, 7088, 7232,
      7248, 42528, 43216, 43264, 43472, 43504, 43600, 44016, 65296, 66720, 68912, 69734,
      69872, 69942, 70096, 70384, 70736, 70864, 71248, 71360, 71472, 71904, 72016, 72784,
      73040, 73120, 92768, 92864, 93008, 120782, 120792, 120802, 120812, 120822, 123200,
      123632, 125264, 130032]"

definition decimal_value :: "nat \<Rightarrow> nat option" where
  "decimal_value c =
     (case find (\<lambda>b. b \<le> c \<and> c < b + 10) decimal_blocks of
        None \<Rightarrow> None
      | Some b \<Rightarrow> Some (c - b))"

text \<open>
  The characters for which \<open>str.isdigit\<close> holds although they are no decimal digits
  (superscripts, circled digits and the like), as inclusive ranges.
\<close>

definition other_digit_ranges :: "(nat \<times> nat) list" where
  "other_digit_ranges =
     [(178, 179), (185, 185), (4969, 4977), (6618, 6618), (8304, 8304), (8308, 8313),
      (8320, 8329), (9312, 9320), (9332, 9340), (9352, 9360), (9450, 9450), (9461, 9469),
      (9471, 9471), (10102, 10110), (10112, 10120), (10122, 10130), (68160, 68163),
      (69216, 69224), (69714, 69722), (127232, 127242)]"

definition isdigit_char :: "nat \<Rightarrow> bool" where
  "isdigit_char c \<longleftrightarrow>
     decimal_value c \<noteq> None \<or> list_ex (\<lambda>r. fst r \<le> c \<and> c \<le> snd r) other_digit_ranges"

text \<open>\<open>s.isdigit()\<close>: false for the empty string.\<close>

definition isdigit :: "str \<Rightarrow> bool" where
  "isdigit s \<longleftrightarrow> s \<noteq> [] \<and> list_all isdigit_char s"

text \<open>\<open>_is_int_string\<close> (the same function in story.py and novel.py).\<close>

definition is_int_string :: "str \<Rightarrow> bool" where
  "is_int_string s \<longleftrightarrow>
     (case s of
        [] \<Rightarrow> False
      | c # cs \<Rightarrow> if c = 43 \<or> c = 45 then isdigit cs else isdigit s)"

text \<open>
  \<open>int(s)\<close> in base ten: surrounding whitespace, an optional sign, decimal digits with
  single underscores between them; \<open>None\<close> stands for \<open>ValueError\<close>. The interpreter's
  resource limits (memory, the cap on the length of a converted digit string) are not
  part of the model.
\<close>

fun parse_digits :: "nat \<Rightarrow> bool \<Rightarrow> str \<Rightarrow> nat option" where
  "parse_digits acc prev [] = (if prev then Some acc else None)"
| "parse_digits acc prev (c # cs) =
     (if c = 95 then (if prev then parse_digits acc False cs else None)
      else (case decimal_value c of
              None \<Rightarrow> None
            | Some d \<Rightarrow> parse_digits (10 * acc + d) True cs))"

definition py_int :: "str \<Rightarrow> int option" where
  "py_int s =
     (let t = strip s;
          neg = (t \<noteq> [] \<and> hd t = 45);
          body = (if t \<noteq> [] \<and> (hd t = 43 \<or> hd t = 45) then tl t else t)
      in case parse_digits 0 False body of
           None \<Rightarrow> None
         | Some n \<Rightarrow> Some (if neg then - int n else int n))"

text \<open>\<open>str(n)\<close> of an integer: decimal digits, with a minus sign when negative.\<close>

function nat_str :: "nat \<Rightarrow> str" where
  "nat_str n = (if n < 10 then [48 + n] else nat_str (n div 10) @ [48 + n mod 10])"
  by pat_completeness auto
termination
  by (relation "measure id") auto

declare nat_str.simps [simp del]

definition int_str :: "int \<Rightarrow> str" where
  "int_str i = (if i < 0 then 45 # nat_str (nat (- i)) else nat_str (nat i))"

section \<open>Paths and the file system\<close>

text \<open>
  A \<open>Path\<close> is identified with the string \<open>str(p)\<close> gives for it; \<open>name\<close>, \<open>parent\<close>
  and \<open>/\<close> are those of a POSIX path.
\<close>

definition path_name :: "str \<Rightarrow> str" where
  "path_name p = (if p = [46] then [] else rev (takeWhile (\<lambda>c. c \<noteq> 47) (rev p)))"

definition path_parent :: "str \<Rightarrow> str" where
  "path_parent p =
     (if 47 \<notin> set p then [46]
      else (let d = rev (tl (dropWhile (\<lambda>c. c \<noteq> 47) (rev p)))
            in if d = [] then [47] else d))"

definition path_join :: "str \<Rightarrow> str \<Rightarrow> str" where
  "path_join p c = (if p = [46] then c else if p = [47] then 47 # c else p @ [47] @ c)"

definition path_suffix :: "str \<Rightarrow> str" where
  "path_suffix p =
     (let n = path_name p;
          ext = rev (takeWhile (\<lambda>c. c \<noteq> 46) (rev n))
      in if 46 \<in> set n \<and> length ext + 1 < length n \<and> ext \<noteq> [] then 46 # ext else [])"

text \<open>
  What the program reads from its surroundings:
  \<^item> \<open>files p\<close>: the content of the regular file at \<open>p\<close>, \<open>None\<close> when \<open>p.is_file()\<close> is false;
  \<^item> \<open>is_dir p\<close>: \<open>p.is_dir()\<close>;
  \<^item> \<open>iterdir_sorted d\<close>: \<open>sorted(d.iterdir())\<close>;
  \<^item> \<open>getmtime p\<close>: \<open>os.path.getmtime(p)\<close>, \<open>None\<close> when it raises \<open>OSError\<close>;
  \<^item> \<open>hash_rank\<close>: the order in which a \<open>set\<close> of strings is iterated (it follows the
    strings' hashes, which change from run to run).
\<close>

record env =
  files :: "str \<Rightarrow> file_data option"
  is_dir :: "str \<Rightarrow> bool"
  iterdir_sorted :: "str \<Rightarrow> str list"
  getmtime :: "str \<Rightarrow> real option"
  hash_rank :: "str \<Rightarrow> nat"

definition set_iter :: "env \<Rightarrow> str list \<Rightarrow> str list" where
  "set_iter e xs = sort_key (hash_rank e) xs"

text \<open>A validator returns the record or a list of messages.\<close>

datatype 'a validated = Valid 'a | Errors "str list"


definition md_to_json :: "env \<Rightarrow> str \<Rightarrow> exn + (str, str) dict" where
  "md_to_json e path = md_to_json_file (files e path)"

section \<open>story.py\<close>

record story =
  s_path :: str
  s_title :: str
  s_number :: int
  s_content :: str
  s_length :: nat

definition count_text_length :: "str \<Rightarrow> nat" where
  "count_text_length text = length (filter (\<lambda>c. c \<noteq> 10 \<and> c \<noteq> 13) text)"

text \<open>\<open>data.get(key, "")\<close>.\<close>

definition dict_get_or_empty :: "(str, str) dict \<Rightarrow> str \<Rightarrow> str" where
  "dict_get_or_empty d k = (case dict_get d k of None \<Rightarrow> [] | Some v \<Rightarrow> v)"

text \<open>
  The checks of \<open>Story.load_if_valid\<close> that come before the parsing of \<open>number\<close>, in the
  order of the source: no header at all, unexpected headers, missing headers, blank values,
  a title of several lines.
\<close>

definition story_checks :: "env \<Rightarrow> (str, str) dict \<Rightarrow> str list" where
  "story_checks e data =
     (let allowed_keys = [ascii ''title'', ascii ''number'', ascii ''content''];
          title = dict_get_or_empty data (ascii ''title'');
          number_raw = dict_get_or_empty data (ascii ''number'');
          content = dict_get_or_empty data (ascii ''content'')
      in (if data = []
          then [ascii ''No H1 headers found. Required headers: title, number, content'']
          else [])
         @ map (\<lambda>key. ascii ''Unexpected header: '' @ key)
             (filter (\<lambda>key. key \<notin> set allowed_keys) (dict_keys data))
         @ map (\<lambda>key. ascii ''Missing required header: '' @ key)
             (filter (\<lambda>key. \<not> dict_has data key) (set_iter e allowed_keys))
         @ (if dict_has data (ascii ''title'') \<and> strip title = []
            then [ascii ''`title` must not be empty''] else [])
         @ (if dict_has data (ascii ''number'') \<and> strip number_raw = []
            then [ascii ''`number` must not be empty''] else [])
         @ (if dict_has data (ascii ''content'') \<and> strip content = []
            then [ascii ''`content` must not be empty''] else [])
         @ (if dict_has data (ascii ''title'') \<and> (10 \<in> set title \<or> 13 \<in> set title)
            then [ascii ''`title` must be a single line''] else []))"

text \<open>
  The end of \<open>Story.load_if_valid\<close>: the error list if there is one, the record otherwise.
  \<open>number_val\<close> is \<open>None\<close> only when \<open>number\<close> is missing, blank or no integer, and then
  an error has been recorded (lemma \<open>story_no_number_has_error\<close> below).
\<close>

definition story_result ::
  "str \<Rightarrow> str list \<Rightarrow> (str, str) dict \<Rightarrow> int option \<Rightarrow> story validated" where
  "story_result p errors data number_val =
     (case number_val of
        None \<Rightarrow> Errors errors
      | Some n \<Rightarrow>
          if errors \<noteq> [] then Errors errors
          else (let title = dict_get_or_empty data (ascii ''title'');
                    content = dict_get_or_empty data (ascii ''content'')
                in Valid \<lparr> s_path = p, s_title = strip title, s_number = n,
                           s_content = content, s_length = count_text_length content \<rparr>))"

definition Story_load_if_valid :: "env \<Rightarrow> str \<Rightarrow> exn + story validated" where
  "Story_load_if_valid e p =
     (if files e p = None then Inr (Errors [ascii ''Story file not found: '' @ p])
      else (case md_to_json e p of
              Inl (JsonKeyDuplicateError m) \<Rightarrow> Inr (Errors [ascii ''Duplicate header: '' @ m])
            | Inl ex \<Rightarrow> Inl ex
            | Inr data \<Rightarrow>
                (let errors = story_checks e data;
                     number_raw = dict_get_or_empty data (ascii ''number'')
                 in if dict_has data (ascii ''number'') \<and> strip number_raw \<noteq> [] then
                      (let number_str = strip number_raw
                       in if is_int_string number_str then
                            (case py_int number_str of
                               None \<Rightarrow> Inl ValueError
                             | Some n \<Rightarrow> Inr (story_result p errors data (Some n)))
                          else Inr (story_result p
                                 (errors @ [ascii ''`number` must be an integer'']) data None))
                    else Inr (story_result p errors data None))))"


section \<open>novel.py\<close>

text \<open>
  \<open>VALID_STATUS\<close>: the three status literals of the source, as code points
  (U+9023 U+8F09 U+4E2D, U+5B8C U+7D50 U+6E08, U+66F4 U+65B0 U+505C U+6B62).
\<close>

definition status_ongoing :: str where
  "status_ongoing = [36899, 36617, 20013]"

definition status_completed :: str where
  "status_completed = [23436, 32080, 28168]"

definition status_stopped :: str where
  "status_stopped = [26356, 26032, 20572, 27490]"

definition VALID_STATUS :: "str list" where
  "VALID_STATUS = [status_ongoing, status_completed, status_stopped]"

record novel =
  n_path :: str
  n_title :: str
  n_tags :: str
  n_status :: str
  n_outline :: str
  n_external_links :: "str option"
  n_chapters :: "(str, int) dict option"
  n_has_external_links :: bool
  n_has_chapters :: bool
  n_stories :: "story list"
  n_num_stories :: nat
  n_total_length :: nat

text \<open>\<open>[line.strip() for line in v.strip().splitlines() if line.strip()]\<close>.\<close>

definition stripped_lines :: "str \<Rightarrow> str list" where
  "stripped_lines v = filter (\<lambda>l. l \<noteq> []) (map strip (splitlines (strip v)))"

text \<open>
  The checks of \<open>Novel.load_if_valid\<close> on the headers, the title, the tags and the status
  (everything before the external links), in the order of the source.
\<close>

definition novel_checks :: "env \<Rightarrow> (str, str) dict \<Rightarrow> str list" where
  "novel_checks e data =
     (let allowed = [ascii ''title'', ascii ''tags'', ascii ''status'', ascii ''outline'',
                     ascii ''external links'', ascii ''chapters''];
          required = [ascii ''title'', ascii ''tags'', ascii ''status'', ascii ''outline''];
          title_val = dict_get_or_empty data (ascii ''title'');
          tags_val = dict_get_or_empty data (ascii ''tags'');
          status_val = dict_get_or_empty data (ascii ''status'');
          tag_lines = stripped_lines tags_val
      in (if data = []
          then [ascii ''No H1 headers found. Required headers: title, tags, status, outline'']
          else [])
         @ map (\<lambda>key. ascii ''Unexpected header: '' @ key)
             (filter (\<lambda>key. key \<notin> set allowed) (dict_keys data))
         @ map (\<lambda>key. ascii ''Missing required header: '' @ key)
             (filter (\<lambda>key. \<not> dict_has data key) (set_iter e required))
         @ map (\<lambda>kv. ascii ''`'' @ fst kv @ ascii ''` must not be empty'')
             (filter (\<lambda>kv. strip (snd kv) = []) data)
         @ (if dict_has data (ascii ''title'') \<and> (10 \<in> set title_val \<or> 13 \<in> set title_val)
            then [ascii ''`title` must be a single line''] else [])
         @ (if dict_has data (ascii ''tags'') \<and>
               (tag_lines = [] \<or> list_ex (\<lambda>l. \<not> startswith l (ascii ''- '')) tag_lines)
            then [ascii ''`tags` must be a Markdown list with at least one item''] else [])
         @ (if dict_has data (ascii ''status'') \<and> strip status_val \<notin> set VALID_STATUS
            then [ascii ''`status` must be one of '' @ [34] @ status_ongoing @ [34] @ ascii '', ''
                    @ [34] @ status_completed @ [34] @ ascii '', ''
                    @ [34] @ status_stopped @ [34]]
            else []))"

text \<open>
  The loop over the lines of \<open>external links\<close>: it stops at the first line that is no list
  item or no link, with one message.
\<close>

fun external_links_loop :: "str list \<Rightarrow> str list" where
  "external_links_loop [] = []"
| "external_links_loop (l # ls) =
     (if \<not> startswith l (ascii ''- '') then [ascii ''`external links` must be a Markdown list'']
      else (let inner = strip (drop 2 l)
            in if \<not> (startswith inner (ascii ''['') \<and> contains inner (ascii '']('')
                       \<and> endswith inner (ascii '')''))
               then [ascii ''Each `external links` item must contain a Markdown link like ''
                     @ [34] @ ascii ''[text](url)'' @ [34] @ ascii '' inside quotes'']
               else external_links_loop ls))"

definition external_links_errors :: "str \<Rightarrow> str list" where
  "external_links_errors v =
     (let lines = stripped_lines v
      in if lines = []
         then [ascii ''`external links` must be a Markdown list with at least one item'']
         else external_links_loop lines)"

text \<open>
  The loop over the lines of \<open>chapters\<close>, over \<open>(tmp, titles_seen, nums_seen)\<close>: the
  messages to add and the final \<open>tmp\<close>. The first bad line empties \<open>tmp\<close> and ends the loop.
  \<open>int(v)\<close> may raise.
\<close>

fun chapters_loop ::
  "str list \<Rightarrow> (str, int) dict \<Rightarrow> str list \<Rightarrow> int list \<Rightarrow> exn + (str list \<times> (str, int) dict)" where
  "chapters_loop [] tmp titles_seen nums_seen = Inr ([], tmp)"
| "chapters_loop (l # ls) tmp titles_seen nums_seen =
     (if 58 \<notin> set l
      then Inr ([ascii ''`chapters` must be in '' @ [39] @ [31456, 12479, 12452, 12488, 12523]
                 @ ascii '': '' @ [31456, 21306, 20999, 12426, 30058, 21495]
                 @ [39] @ ascii '' format''], [])
      else (let k = strip (takeWhile (\<lambda>c. c \<noteq> 58) l);
                v = strip (tl (dropWhile (\<lambda>c. c \<noteq> 58) l))
            in if k = [] \<or> v = [] then Inr ([ascii ''`chapters` must be valid key: value pairs''], [])
               else if k \<in> set titles_seen then Inr ([ascii ''`chapters` titles must be unique''], [])
               else if \<not> is_int_string v then Inr ([ascii ''`chapters` values must be integers''], [])
               else (case py_int v of
                       None \<Rightarrow> Inl ValueError
                     | Some num \<Rightarrow>
                         if num \<in> set nums_seen
                         then Inr ([ascii ''`chapters` numbers must be unique''], [])
                         else chapters_loop ls (dict_set tmp k num)
                                (k # titles_seen) (num # nums_seen))))"

text \<open>
  The \<open>chapters\<close> block: the error list after it, \<open>chapters_dict\<close> and \<open>has_chapters\<close>.
  \<open>dict(sorted(tmp.items(), key=lambda kv: kv[1]))\<close> is the stable sort by boundary number.
\<close>

definition novel_chapters ::
  "str option \<Rightarrow> str list \<Rightarrow> exn + (str list \<times> (str, int) dict option \<times> bool)" where
  "novel_chapters chapters_val errors =
     (case chapters_val of
        None \<Rightarrow> Inr (errors, None, False)
      | Some v \<Rightarrow>
          (let lines = stripped_lines v
           in if lines = []
              then Inr (errors @ [ascii ''`chapters` must not be empty if provided''], None, False)
              else (case chapters_loop lines [] [] [] of
                      Inl ex \<Rightarrow> Inl ex
                    | Inr (msgs, tmp) \<Rightarrow>
                        if tmp \<noteq> [] \<and> errors @ msgs = []
                        then Inr (errors @ msgs, Some (sort_key snd tmp), True)
                        else Inr (errors @ msgs, None, False))))"

text \<open>\<open>_find_chapter_for_number\<close>.\<close>

fun find_chapter_for_number :: "int \<Rightarrow> (str \<times> int) list \<Rightarrow> str option" where
  "find_chapter_for_number number [] = None"
| "find_chapter_for_number number ((title, boundary) # bounds) =
     (if number \<le> boundary then Some title else find_chapter_for_number number bounds)"

text \<open>
  The loop over the story files: the messages of the invalid ones, each with the file in
  front, and the valid stories. An exception of \<open>Story.load_if_valid\<close> ends it.
\<close>

fun load_stories :: "env \<Rightarrow> str list \<Rightarrow> exn + (str list \<times> story list)" where
  "load_stories e [] = Inr ([], [])"
| "load_stories e (sf # rest) =
     (case Story_load_if_valid e sf of
        Inl ex \<Rightarrow> Inl ex
      | Inr r \<Rightarrow>
          (case load_stories e rest of
             Inl ex \<Rightarrow> Inl ex
           | Inr (msgs, stories) \<Rightarrow>
               (case r of
                  Errors result \<Rightarrow> Inr (map (\<lambda>msg. sf @ ascii '': '' @ msg) result @ msgs, stories)
                | Valid s \<Rightarrow> Inr (msgs, s # stories))))"

text \<open>\<open>Counter(nums)\<close>: the counts, keyed in the order of first occurrence.\<close>

definition Counter :: "int list \<Rightarrow> (int, nat) dict" where
  "Counter nums =
     foldl (\<lambda>d x. dict_set d x (case dict_get d x of None \<Rightarrow> 1 | Some c \<Rightarrow> c + 1)) [] nums"

definition duplicate_number_errors :: "story list \<Rightarrow> str list" where
  "duplicate_number_errors stories =
     map (\<lambda>nc. ascii ''Duplicate story number found: '' @ int_str (fst nc))
       (filter (\<lambda>nc. snd nc > 1) (Counter (map s_number stories)))"

definition chapter_error :: "story \<Rightarrow> str" where
  "chapter_error s =
     ascii ''Story '' @ path_name (s_path s) @ ascii '' (number='' @ int_str (s_number s)
       @ ascii '') does not belong to any chapter''"

definition chapter_errors :: "bool \<Rightarrow> (str, int) dict option \<Rightarrow> story list \<Rightarrow> str list" where
  "chapter_errors has_chapters chapters_dict stories =
     (case chapters_dict of
        None \<Rightarrow> []
      | Some ch \<Rightarrow>
          if has_chapters \<and> ch \<noteq> []
          then map chapter_error
                 (filter (\<lambda>s. find_chapter_for_number (s_number s) ch = None) stories)
          else [])"

definition story_files :: "env \<Rightarrow> str \<Rightarrow> str list" where
  "story_files e p =
     filter (\<lambda>f. files e f \<noteq> None \<and> path_suffix f = ascii ''.md''
                 \<and> path_name f \<noteq> ascii ''index.md''
                 \<and> \<not> startswith (path_name f) (ascii ''_''))
       (iterdir_sorted e (path_parent p))"

text \<open>
  The first part of \<open>Novel.load_if_valid\<close>, the validation of the index document: the
  error list, \<open>external_links_str\<close>, \<open>has_external_links\<close>, \<open>chapters_dict\<close> and
  \<open>has_chapters\<close> as they stand at the first \<open>if errors: return errors\<close>.
\<close>

definition novel_index ::
  "env \<Rightarrow> (str, str) dict
     \<Rightarrow> exn + (str list \<times> str option \<times> bool \<times> (str, int) dict option \<times> bool)" where
  "novel_index e data =
     (let external_links_val = dict_get data (ascii ''external links'');
          errors = novel_checks e data
                   @ (case external_links_val of
                        None \<Rightarrow> []
                      | Some v \<Rightarrow> external_links_errors v);
          has_external_links = (external_links_val \<noteq> None \<and> errors = []);
          external_links_str = (if has_external_links then external_links_val else None)
      in case novel_chapters (dict_get data (ascii ''chapters'')) errors of
           Inl ex \<Rightarrow> Inl ex
         | Inr (errors', chapters_dict, has_chapters) \<Rightarrow>
             Inr (errors', external_links_str, has_external_links, chapters_dict, has_chapters))"

definition Novel_load_if_valid :: "env \<Rightarrow> str \<Rightarrow> exn + novel validated" where
  "Novel_load_if_valid e p =
     (if files e p = None then Inr (Errors [ascii ''Novel index file not found: '' @ p])
      else (case md_to_json e p of
              Inl (JsonKeyDuplicateError m) \<Rightarrow> Inr (Errors [ascii ''Duplicate header: '' @ m])
            | Inl ex \<Rightarrow> Inl ex
            | Inr data \<Rightarrow>
                (case novel_index e data of
                   Inl ex \<Rightarrow> Inl ex
                 | Inr (errors, external_links_str, has_external_links,
                        chapters_dict, has_chapters) \<Rightarrow>
                     if errors \<noteq> [] then Inr (Errors errors)
                     else (case load_stories e (story_files e p) of
                             Inl ex \<Rightarrow> Inl ex
                           | Inr (msgs, stories) \<Rightarrow>
                               (let errors = msgs @ duplicate_number_errors stories
                                             @ chapter_errors has_chapters chapters_dict stories;
                                    stories_sorted = sort_key s_number stories
                                in if errors \<noteq> [] then Inr (Errors errors)
                                   else Inr (Valid \<lparr>
                                     n_path = p,
                                     n_title = strip (dict_get_or_empty data (ascii ''title'')),
                                     n_tags = dict_get_or_empty data (ascii ''tags''),
                                     n_status = strip (dict_get_or_empty data (ascii ''status'')),
                                     n_outline = dict_get_or_empty data (ascii ''outline''),
                                     n_external_links = external_links_str,
                                     n_chapters = chapters_dict,
                                     n_has_external_links = has_external_links,
                                     n_has_chapters = has_chapters,
                                     n_stories = stories_sorted,
                                     n_num_stories = length stories_sorted,
                                     n_total_length = sum_list (map s_length stories_sorted)
                                   \<rparr>))))))"

text \<open>
  \<open>Novel.get_stories_ordered\<close> returns the tuple of stories or the dict from chapter
  titles to tuples of stories.
\<close>

datatype stories_ordered = Flat "story list" | ByChapter "(str, story list) dict"

text \<open>\<open>ordered[chapter].append(s)\<close>.\<close>

definition dict_append :: "(str, story list) dict \<Rightarrow> str \<Rightarrow> story \<Rightarrow> (str, story list) dict" where
  "dict_append ordered chapter s =
     map (\<lambda>kv. if fst kv = chapter then (fst kv, snd kv @ [s]) else kv) ordered"

fun group_stories ::
  "(str \<times> int) list \<Rightarrow> (str, story list) dict \<Rightarrow> story list \<Rightarrow> (str, story list) dict" where
  "group_stories bounds ordered [] = ordered"
| "group_stories bounds ordered (s # stories) =
     (case find_chapter_for_number (s_number s) bounds of
        None \<Rightarrow> group_stories bounds ordered stories
      | Some chapter \<Rightarrow> group_stories bounds (dict_append ordered chapter s) stories)"

definition get_stories_ordered :: "novel \<Rightarrow> stories_ordered" where
  "get_stories_ordered n =
     (case n_chapters n of
        None \<Rightarrow> Flat (n_stories n)
      | Some ch \<Rightarrow>
          if \<not> n_has_chapters n \<or> ch = [] then Flat (n_stories n)
          else ByChapter (group_stories ch (map (\<lambda>title. (title, [])) (dict_keys ch))
                            (n_stories n)))"


section \<open>toppage.py\<close>

record toppage =
  t_path :: str
  t_title :: str
  t_url :: str
  t_self_intro :: str
  t_novels :: "novel list"
  t_novel_directories :: "str list"

text \<open>\<open>_STATUS_ORDER.get(status, 999)\<close>.\<close>

definition STATUS_ORDER :: "(str, nat) dict" where
  "STATUS_ORDER = [(status_ongoing, 0), (status_completed, 1), (status_stopped, 2)]"

definition status_order :: "str \<Rightarrow> nat" where
  "status_order status = (case dict_get STATUS_ORDER status of None \<Rightarrow> 999 | Some r \<Rightarrow> r)"

text \<open>
  \<open>novel_last_updated\<close>: the latest modification time of the index document and the
  story documents, \<open>0.0\<close> when none can be read. The times are floats; only their order
  and their negation are used, and on these the reals agree with the floats.
\<close>

definition mtimes :: "env \<Rightarrow> str list \<Rightarrow> real list" where
  "mtimes e ps = concat (map (\<lambda>p. case getmtime e p of None \<Rightarrow> [] | Some t \<Rightarrow> [t]) ps)"

definition novel_last_updated :: "env \<Rightarrow> novel \<Rightarrow> real" where
  "novel_last_updated e n =
     (let times = mtimes e (n_path n # map s_path (n_stories n))
      in case times of [] \<Rightarrow> 0 | t # ts \<Rightarrow> fold max ts t)"

text \<open>
  \<open>sort_key\<close> of the source: the tuple \<open>(-updated, status_order, n.title)\<close>. Tuples compare
  lexicographically, as the products of \<open>HOL-Library.Product_Lexorder\<close> do.
\<close>

definition novel_sort_key :: "env \<Rightarrow> novel \<Rightarrow> real \<times> nat \<times> str" where
  "novel_sort_key e n = (- novel_last_updated e n, status_order (n_status n), n_title n)"

text \<open>
  The loop over the sorted children of the directory: the messages of the invalid novels,
  each with its index document in front, the valid novels and their directories.
\<close>

fun load_novels :: "env \<Rightarrow> str list \<Rightarrow> exn + (str list \<times> novel list \<times> str list)" where
  "load_novels e [] = Inr ([], [], [])"
| "load_novels e (child # rest) =
     (let index_md = path_join child (ascii ''index.md'')
      in if \<not> is_dir e child \<or> files e index_md = None then load_novels e rest
         else (case Novel_load_if_valid e index_md of
                 Inl ex \<Rightarrow> Inl ex
               | Inr novel_result \<Rightarrow>
                   (case load_novels e rest of
                      Inl ex \<Rightarrow> Inl ex
                    | Inr (msgs, novels, novel_dirs) \<Rightarrow>
                        (case novel_result of
                           Errors result \<Rightarrow>
                             Inr (map (\<lambda>msg. index_md @ ascii '': '' @ msg) result @ msgs,
                                  novels, novel_dirs)
                         | Valid n \<Rightarrow> Inr (msgs, n # novels, child # novel_dirs)))))"

definition site_title :: str where
  "site_title = [12418, 12368, 12425, 12494, 12505, 12523]"

definition site_url :: str where
  "site_url = ascii ''https://www.mogura-novel.com/''"

text \<open>\<open>sorted(xs, key=f)\<close> is the stable sort by key, which \<open>sort_key\<close> is.\<close>

definition TopPage_load_if_valid :: "env \<Rightarrow> str \<Rightarrow> exn + toppage validated" where
  "TopPage_load_if_valid e p =
     (case files e p of
        None \<Rightarrow> Inr (Errors [ascii ''Self intro file not found: '' @ p])
      | Some (Undecodable ls) \<Rightarrow> Inr (Errors [ascii ''Self intro file is not valid UTF-8: '' @ p])
      | Some (Decoded raw) \<Rightarrow>
          if strip raw = [] then Inr (Errors [ascii ''Self intro must not be empty''])
          else (case load_novels e (iterdir_sorted e (path_parent p)) of
                  Inl ex \<Rightarrow> Inl ex
                | Inr (errors, novels, novel_dirs) \<Rightarrow>
                    if errors \<noteq> [] then Inr (Errors errors)
                    else Inr (Valid \<lparr>
                      t_path = p,
                      t_title = site_title,
                      t_url = site_url,
                      t_self_intro = strip raw,
                      t_novels = sort_key (novel_sort_key e) novels,
                      t_novel_directories =
                        map snd (sort_key (\<lambda>pair. novel_sort_key e (fst pair))
                                   (zip novels novel_dirs))
                    \<rparr>)))"

section \<open>publish.py: the update history\<close>

text \<open>\<open>History = Dict[str, Tuple[str, str]]\<close>: path to (hash, timestamp).\<close>

type_synonym History = "str \<rightharpoonup> (str \<times> str)"

text \<open>\<open>s.replace("\\", "/")\<close>.\<close>

definition replace_backslash :: "str \<Rightarrow> str" where
  "replace_backslash s = map (\<lambda>c. if c = 92 then 47 else c) s"

text \<open>
  \<open>update_history_entry\<close> changes the dict it is given and returns the timestamp: the
  model returns both.
\<close>

definition update_history_entry :: "History \<Rightarrow> str \<Rightarrow> str \<Rightarrow> str \<Rightarrow> History \<times> str" where
  "update_history_entry history key new_hash now_iso =
     (let key_str = replace_backslash key
      in case history key_str of
           None \<Rightarrow> (history(key_str \<mapsto> (new_hash, now_iso)), now_iso)
         | Some old \<Rightarrow>
             if fst old \<noteq> new_hash then (history(key_str \<mapsto> (new_hash, now_iso)), now_iso)
             else (history, snd old))"

section \<open>hashlib: SHA-256\<close>

text \<open>\<open>s.encode("utf-8")\<close>; a surrogate code point cannot be encoded.\<close>

definition encode_char :: "nat \<Rightarrow> 8 word list option" where
  "encode_char c =
     (if c < 128 then Some [of_nat c]
      else if c < 2048 then Some [of_nat (192 + c div 64), of_nat (128 + c mod 64)]
      else if 55296 \<le> c \<and> c \<le> 57343 then None
      else if c < 65536
        then Some [of_nat (224 + c div 4096), of_nat (128 + c div 64 mod 64),
                   of_nat (128 + c mod 64)]
      else if c < 1114112
        then Some [of_nat (240 + c div 262144), of_nat (128 + c div 4096 mod 64),
                   of_nat (128 + c div 64 mod 64), of_nat (128 + c mod 64)]
      else None)"

fun encode_utf8 :: "str \<Rightarrow> exn + 8 word list" where
  "encode_utf8 [] = Inr []"
| "encode_utf8 (c # cs) =
     (case encode_char c of
        None \<Rightarrow> Inl UnicodeEncodeError
      | Some bs \<Rightarrow> (case encode_utf8 cs of Inl ex \<Rightarrow> Inl ex | Inr rest \<Rightarrow> Inr (bs @ rest)))"

text \<open>The round constants and the initial hash value of SHA-256, in decimal.\<close>

definition sha_K :: "32 word list" where
  "sha_K =
     [1116352408, 1899447441, 3049323471, 3921009573, 961987163, 1508970993,
      2453635748, 2870763221, 3624381080, 310598401, 607225278, 1426881987,
      1925078388, 2162078206, 2614888103, 3248222580, 3835390401, 4022224774,
      264347078, 604807628, 770255983, 1249150122, 1555081692, 1996064986,
      2554220882, 2821834349, 2952996808, 3210313671, 3336571891, 3584528711,
      113926993, 338241895, 666307205, 773529912, 1294757372, 1396182291,
      1695183700, 1986661051, 2177026350, 2456956037, 2730485921, 2820302411,
      3259730800, 3345764771, 3516065817, 3600352804, 4094571909, 275423344,
      430227734, 506948616, 659060556, 883997877, 958139571, 1322822218,
      1537002063, 1747873779, 1955562222, 2024104815, 2227730452, 2361852424,
      2428436474, 2756734187, 3204031479, 3329325298]"

definition sha_H0 :: "32 word list" where
  "sha_H0 = [1779033703, 3144134277, 1013904242, 2773480762, 1359893119, 2600822924,
      528734635, 1541459225]"

definition sha_ch :: "32 word \<Rightarrow> 32 word \<Rightarrow> 32 word \<Rightarrow> 32 word" where
  "sha_ch x y z = (x AND y) XOR (NOT x AND z)"

definition sha_maj :: "32 word \<Rightarrow> 32 word \<Rightarrow> 32 word \<Rightarrow> 32 word" where
  "sha_maj x y z = (x AND y) XOR (x AND z) XOR (y AND z)"

definition sha_bsig0 :: "32 word \<Rightarrow> 32 word" where
  "sha_bsig0 x = word_rotr 2 x XOR word_rotr 13 x XOR word_rotr 22 x"

definition sha_bsig1 :: "32 word \<Rightarrow> 32 word" where
  "sha_bsig1 x = word_rotr 6 x XOR word_rotr 11 x XOR word_rotr 25 x"

definition sha_ssig0 :: "32 word \<Rightarrow> 32 word" where
  "sha_ssig0 x = word_rotr 7 x XOR word_rotr 18 x XOR drop_bit 3 x"

definition sha_ssig1 :: "32 word \<Rightarrow> 32 word" where
  "sha_ssig1 x = word_rotr 17 x XOR word_rotr 19 x XOR drop_bit 10 x"

text \<open>
  Padding: a one bit, zero bits, and the length of the message in bits as 64 bits, up
  to a multiple of 64 bytes.
\<close>

definition sha_pad :: "8 word list \<Rightarrow> 8 word list" where
  "sha_pad m =
     (let l = length m;
          k = (119 - l mod 64) mod 64;
          bits :: 64 word = of_nat (8 * l)
      in m @ [128] @ replicate k 0
           @ map (\<lambda>i. ucast (drop_bit (8 * (7 - i)) bits)) [0 ..< 8])"

definition be32 :: "8 word list \<Rightarrow> 32 word" where
  "be32 bs = foldl (\<lambda>w b. push_bit 8 w OR ucast b) 0 bs"

fun sha_words :: "nat \<Rightarrow> 8 word list \<Rightarrow> 32 word list" where
  "sha_words 0 bs = []"
| "sha_words (Suc n) bs = be32 (take 4 bs) # sha_words n (drop 4 bs)"

text \<open>The message schedule: sixteen words extended to sixty-four.\<close>

fun sha_extend :: "nat \<Rightarrow> 32 word list \<Rightarrow> 32 word list" where
  "sha_extend 0 w = w"
| "sha_extend (Suc n) w =
     (let t = length w
      in sha_extend n (w @ [sha_ssig1 (w ! (t - 2)) + w ! (t - 7)
                             + sha_ssig0 (w ! (t - 15)) + w ! (t - 16)]))"

type_synonym sha_state =
  "32 word \<times> 32 word \<times> 32 word \<times> 32 word \<times> 32 word \<times> 32 word \<times> 32 word \<times> 32 word"

definition sha_round :: "32 word \<times> 32 word \<Rightarrow> sha_state \<Rightarrow> sha_state" where
  "sha_round kw st =
     (case st of (a, b, c, d, e, f, g, h) \<Rightarrow>
        (let t1 = h + sha_bsig1 e + sha_ch e f g + fst kw + snd kw;
             t2 = sha_bsig0 a + sha_maj a b c
         in (t1 + t2, a, b, c, d + t1, e, f, g)))"

definition sha_block :: "sha_state \<Rightarrow> 8 word list \<Rightarrow> sha_state" where
  "sha_block st block =
     (case st of (a, b, c, d, e, f, g, h) \<Rightarrow>
        (case fold sha_round (zip sha_K (sha_extend 48 (sha_words 16 block))) st of
           (a', b', c', d', e', f', g', h') \<Rightarrow>
             (a + a', b + b', c + c', d + d', e + e', f + f', g + g', h + h')))"

fun sha_blocks :: "nat \<Rightarrow> sha_state \<Rightarrow> 8 word list \<Rightarrow> sha_state" where
  "sha_blocks 0 st bs = st"
| "sha_blocks (Suc n) st bs = sha_blocks n (sha_block st (take 64 bs)) (drop 64 bs)"

definition sha256 :: "8 word list \<Rightarrow> 32 word list" where
  "sha256 m =
     (let p = sha_pad m
      in case sha_blocks (length p div 64)
                (sha_H0 ! 0, sha_H0 ! 1, sha_H0 ! 2, sha_H0 ! 3,
                 sha_H0 ! 4, sha_H0 ! 5, sha_H0 ! 6, sha_H0 ! 7) p of
           (a, b, c, d, e, f, g, h) \<Rightarrow> [a, b, c, d, e, f, g, h])"

text \<open>\<open>hexdigest\<close>: eight lower-case hexadecimal digits for each word.\<close>

definition hex_digit :: "nat \<Rightarrow> nat" where
  "hex_digit d = (if d < 10 then 48 + d else 87 + d)"

definition hex_word :: "32 word \<Rightarrow> str" where
  "hex_word w = map (\<lambda>i. hex_digit (unat (drop_bit (4 * (7 - i)) w) mod 16)) [0 ..< 8]"

definition hexdigest :: "32 word list \<Rightarrow> str" where
  "hexdigest ws = concat (map hex_word ws)"

text \<open>\<open>Story.hash\<close>.\<close>

definition Story_hash :: "story \<Rightarrow> exn + str" where
  "Story_hash s =
     (let base = s_title s @ [10] @ int_str (s_number s) @ [10] @ s_content s
      in case encode_utf8 base of
           Inl ex \<Rightarrow> Inl ex
         | Inr bytes \<Rightarrow> Inr (hexdigest (sha256 bytes)))"


section \<open>Notions used in the statements\<close>

text \<open>
  A run makes a sequence of calls of \<open>update_history_entry\<close> on one history, each with a
  path, a hash and a timestamp: the history after them.
\<close>

definition record_calls :: "History \<Rightarrow> (str \<times> str \<times> str) list \<Rightarrow> History" where
  "record_calls h calls =
     foldl (\<lambda>h c. fst (update_history_entry h (fst c) (fst (snd c)) (snd (snd c)))) h calls"

text \<open>Two spellings of a path that differ only in which separator stands where.\<close>

definition same_but_separators :: "str \<Rightarrow> str \<Rightarrow> bool" where
  "same_but_separators k1 k2 \<longleftrightarrow>
     list_all2 (\<lambda>a b. a = b \<or> ((a = 92 \<or> a = 47) \<and> (b = 92 \<or> b = 47))) k1 k2"

text \<open>
  The name of the section a line of a document opens, if the line is a top-level marker:
  the test and the key of \<open>md_to_json\<close>.
\<close>

definition marker_name :: "str \<Rightarrow> str option" where
  "marker_name raw_line =
     (let stripped = lstrip (rstrip_nl raw_line)
      in if startswith stripped (ascii ''# '') then Some (strip (drop 2 stripped)) else None)"

text \<open>The names of the markers of a list of lines, in order.\<close>

definition marker_names :: "str list \<Rightarrow> str list" where
  "marker_names ls = List.map_filter marker_name ls"

text \<open>The first name of a list that is in \<open>seen\<close> or occurs earlier in the list.\<close>

fun first_repeated :: "str set \<Rightarrow> str list \<Rightarrow> str option" where
  "first_repeated seen [] = None"
| "first_repeated seen (x # xs) = (if x \<in> seen then Some x else first_repeated (insert x seen) xs)"

text \<open>The keys \<open>md_to_json\<close> has met: those of \<open>result\<close> and the current one.\<close>

definition known :: "(str, str) dict \<Rightarrow> str option \<Rightarrow> str list" where
  "known result current_key = dict_keys result @ (case current_key of None \<Rightarrow> [] | Some k \<Rightarrow> [k])"

text \<open>The exception \<open>md_to_json\<close> raises for a key.\<close>

definition duplicate_error :: "str \<Rightarrow> exn" where
  "duplicate_error k = JsonKeyDuplicateError (ascii ''Duplicate key found: '' @ k)"

text \<open>
  A file system for examples: files with their content, directories with their sorted
  entries, modification times; sets are iterated in the order they are written.
\<close>

definition example_env ::
  "(str \<times> file_data) list \<Rightarrow> (str \<times> str list) list \<Rightarrow> (str \<times> real) list \<Rightarrow> env" where
  "example_env fs dirs mt =
     \<lparr> files = map_of fs,
       is_dir = (\<lambda>p. p \<in> set (map fst dirs)),
       iterdir_sorted = (\<lambda>p. case map_of dirs p of None \<Rightarrow> [] | Some xs \<Rightarrow> xs),
       getmtime = map_of mt,
       hash_rank = (\<lambda>s. 0) \<rparr>"

text \<open>A code point that UTF-8 encodes: any but the surrogates.\<close>

definition unicode_scalar :: "nat \<Rightarrow> bool" where
  "unicode_scalar c \<longleftrightarrow> c < 55296 \<or> (57343 < c \<and> c < 1114112)"

text \<open>
  An example: a novel with the chapters B: 10, A: 1, C: 20 and one story, of number 21;
  and the sections of its index document.
\<close>

definition chapters_env :: env where
  "chapters_env =
     example_env
       [(ascii ''b/index.md'', Decoded (ascii ''# title\<newline>B\<newline># tags\<newline>- t\<newline># status\<newline>'' @ [23436] @ [32080] @ [28168] @ ascii ''\<newline># outline\<newline>o\<newline># chapters\<newline>B: 10\<newline>A: 1\<newline>C: 20\<newline>'')),
        (ascii ''b/1.md'', Decoded (ascii ''# title\<newline>S\<newline># number\<newline>21\<newline># content\<newline>c\<newline>''))]
       [(ascii ''b'', [ascii ''b/1.md'', ascii ''b/index.md''])]
       []"

definition chapters_data :: "(str, str) dict" where
  "chapters_data =
     [(ascii ''title'', ascii ''B''), (ascii ''tags'', ascii ''- t''),
      (ascii ''status'', status_completed), (ascii ''outline'', ascii ''o''),
      (ascii ''chapters'', ascii ''B: 10\<newline>A: 1\<newline>C: 20'')]"

text \<open>
  An example: a novel with the chapters B: 10, A: 1 and two stories, the file 1.md with
  number 5 and the file 2.md with number 1; and the record its validation gives.
\<close>

definition grouped_env :: env where
  "grouped_env =
     example_env
       [(ascii ''a/index.md'', Decoded (ascii ''# title\<newline>N\<newline># tags\<newline>- t\<newline># status\<newline>'' @ [36899] @ [36617] @ [20013] @ ascii ''\<newline># outline\<newline>o\<newline># chapters\<newline>B: 10\<newline>A: 1\<newline>'')),
        (ascii ''a/1.md'', Decoded (ascii ''# title\<newline>S\<newline># number\<newline>5\<newline># content\<newline>c\<newline>'')),
        (ascii ''a/2.md'', Decoded (ascii ''# title\<newline>R\<newline># number\<newline>1\<newline># content\<newline>d\<newline>''))]
       [(ascii ''a'', [ascii ''a/1.md'', ascii ''a/2.md'', ascii ''a/index.md''])]
       []"

definition grouped_story5 :: story where
  "grouped_story5 = \<lparr> s_path = ascii ''a/1.md'', s_title = ascii ''S'', s_number = 5,
                        s_content = ascii ''c'', s_length = 1 \<rparr>"

definition grouped_story1 :: story where
  "grouped_story1 = \<lparr> s_path = ascii ''a/2.md'', s_title = ascii ''R'', s_number = 1,
                        s_content = ascii ''d'', s_length = 1 \<rparr>"

definition grouped_novel :: novel where
  "grouped_novel =
     \<lparr> n_path = ascii ''a/index.md'', n_title = ascii ''N'', n_tags = ascii ''- t'',
       n_status = status_ongoing, n_outline = ascii ''o'', n_external_links = None,
       n_chapters = Some [(ascii ''A'', 1), (ascii ''B'', 10)],
       n_has_external_links = False, n_has_chapters = True,
       n_stories = [grouped_story1, grouped_story5],
       n_num_stories = 2, n_total_length = 2 \<rparr>"

text \<open>
  The order of the top page in words: a novel comes before another when it was updated
  later; or at the same time and its status has the lower rank; or with the same time and
  rank when its title is not greater. Two novels are tied when time, rank and title agree.
\<close>

definition precedes :: "env \<Rightarrow> novel \<Rightarrow> novel \<Rightarrow> bool" where
  "precedes e a b \<longleftrightarrow>
     novel_last_updated e a > novel_last_updated e b
     \<or> (novel_last_updated e a = novel_last_updated e b
        \<and> (status_order (n_status a) < status_order (n_status b)
           \<or> (status_order (n_status a) = status_order (n_status b)
              \<and> n_title a \<le> n_title b)))"

definition tied :: "env \<Rightarrow> novel \<Rightarrow> novel \<Rightarrow> bool" where
  "tied e a b \<longleftrightarrow>
     novel_last_updated e b = novel_last_updated e a
     \<and> status_order (n_status b) = status_order (n_status a)
     \<and> n_title b = n_title a"

text \<open>
  An example: a site with the novels A (completed) and B (ongoing), found in this order
  and modified at the same time; and the records their validation gives.
\<close>

definition order_env :: env where
  "order_env =
     example_env
       [(ascii ''s/self_intro.md'', Decoded (ascii ''hi'')),
        (ascii ''s/a/index.md'', Decoded (ascii ''# title\<newline>A\<newline># tags\<newline>- t\<newline># status\<newline>'' @ [23436] @ [32080] @ [28168] @ ascii ''\<newline># outline\<newline>o\<newline>'')),
        (ascii ''s/b/index.md'', Decoded (ascii ''# title\<newline>B\<newline># tags\<newline>- t\<newline># status\<newline>'' @ [36899] @ [36617] @ [20013] @ ascii ''\<newline># outline\<newline>o\<newline>''))]
       [(ascii ''s'', [ascii ''s/a'', ascii ''s/b'', ascii ''s/self_intro.md'']),
        (ascii ''s/a'', [ascii ''s/a/index.md'']),
        (ascii ''s/b'', [ascii ''s/b/index.md''])]
       [(ascii ''s/a/index.md'', 3), (ascii ''s/b/index.md'', 3)]"

definition order_novel_a :: novel where
  "order_novel_a =
     \<lparr> n_path = ascii ''s/a/index.md'', n_title = ascii ''A'', n_tags = ascii ''- t'',
       n_status = status_completed, n_outline = ascii ''o'', n_external_links = None,
       n_chapters = None, n_has_external_links = False, n_has_chapters = False,
       n_stories = [], n_num_stories = 0, n_total_length = 0 \<rparr>"

definition order_novel_b :: novel where
  "order_novel_b =
     \<lparr> n_path = ascii ''s/b/index.md'', n_title = ascii ''B'', n_tags = ascii ''- t'',
       n_status = status_ongoing, n_outline = ascii ''o'', n_external_links = None,
       n_chapters = None, n_has_external_links = False, n_has_chapters = False,
       n_stories = [], n_num_stories = 0, n_total_length = 0 \<rparr>"

definition order_toppage :: toppage where
  "order_toppage =
     \<lparr> t_path = ascii ''s/self_intro.md'', t_title = site_title, t_url = site_url,
       t_self_intro = ascii ''hi'', t_novels = [order_novel_b, order_novel_a],
       t_novel_directories = [ascii ''s/b'', ascii ''s/a''] \<rparr>"

section \<open>Unfolding the definitions on examples\<close>

text \<open>The definitions that evaluate the model on a concrete file system.\<close>

lemmas str_eval = lstrip_def rstrip_def strip_def rstrip_nl_def startswith_def endswith_def
  isspace_def ascii_def Let_def

lemmas dict_eval = dict_has_def dict_keys_def dict_get_def dict_get_or_empty_def

lemmas int_eval = is_int_string_def isdigit_def isdigit_char_def decimal_value_def
  decimal_blocks_def other_digit_ranges_def py_int_def

lemmas story_eval = Story_load_if_valid_def md_to_json_def md_to_json_file_def readlines_def
  md_scan.simps md_flush_def story_checks_def story_result_def set_iter_def
  count_text_length_def example_env_def

lemmas novel_eval = Novel_load_if_valid_def novel_index_def novel_checks_def novel_chapters_def
  external_links_errors_def stripped_lines_def splitlines_def is_linebreak_def
  story_files_def path_parent_def path_name_def path_suffix_def path_join_def
  duplicate_number_errors_def Counter_def chapter_errors_def chapter_error_def
  VALID_STATUS_def status_ongoing_def status_completed_def status_stopped_def

lemmas toppage_eval = TopPage_load_if_valid_def site_title_def site_url_def
  novel_sort_key_def novel_last_updated_def mtimes_def status_order_def STATUS_ORDER_def

section \<open>The update history\<close>

lemma replace_backslash_no_backslash: "92 \<notin> set (replace_backslash k)"
  by (auto simp: replace_backslash_def)

lemma replace_backslash_same:
  "same_but_separators k1 k2 \<Longrightarrow> replace_backslash k1 = replace_backslash k2"
  unfolding same_but_separators_def replace_backslash_def
  by (induction k1 k2 rule: list_all2_induct) auto

lemma dom_update_history_entry:
  "dom (fst (update_history_entry h key new_hash now)) = insert (replace_backslash key) (dom h)"
  by (auto simp: update_history_entry_def Let_def split: option.splits if_splits)

lemma dom_record_calls:
  "k \<in> dom (record_calls h calls) \<Longrightarrow> k \<in> dom h \<or> 92 \<notin> set k"
proof (induction calls arbitrary: h)
  case Nil
  then show ?case by (simp add: record_calls_def)
next
  case (Cons c cs)
  from Cons.prems
  have "k \<in> dom (record_calls
                   (fst (update_history_entry h (fst c) (fst (snd c)) (snd (snd c)))) cs)"
    by (simp add: record_calls_def)
  from Cons.IH [OF this] show ?case
    by (auto simp: dom_update_history_entry replace_backslash_no_backslash simp del: fst_conv)
qed

text \<open>
  C2. \<open>update_history_entry\<close> writes \<open>(hash, now)\<close> under the key and returns \<open>now\<close> when
  the key is absent or its stored hash differs; otherwise it leaves the history as it is
  and returns the stored timestamp. A second call with the same hash, at whatever time,
  returns the timestamp of the first call and leaves the history of the first call
  unchanged.
\<close>

theorem update_history_entry_record:
  "((h (replace_backslash key) = None
       \<or> (\<exists>old. h (replace_backslash key) = Some old \<and> fst old \<noteq> new_hash))
      \<longrightarrow> update_history_entry h key new_hash now
            = (h(replace_backslash key \<mapsto> (new_hash, now)), now))
   \<and> (\<forall>ts. h (replace_backslash key) = Some (new_hash, ts)
         \<longrightarrow> update_history_entry h key new_hash now = (h, ts))
   \<and> (\<forall>now'. update_history_entry (fst (update_history_entry h key new_hash now))
                  key new_hash now'
         = update_history_entry h key new_hash now)"
  by (auto simp: update_history_entry_def Let_def split: option.splits)

theorem update_history_entry_record_witness:
  "update_history_entry Map.empty (ascii ''a/1.md'') (ascii ''h1'') (ascii ''t1'')
     = (Map.empty(ascii ''a/1.md'' \<mapsto> (ascii ''h1'', ascii ''t1'')), ascii ''t1'')
   \<and> update_history_entry (Map.empty(ascii ''a/1.md'' \<mapsto> (ascii ''h1'', ascii ''t1'')))
        (ascii ''a/1.md'') (ascii ''h1'') (ascii ''t2'')
     = (Map.empty(ascii ''a/1.md'' \<mapsto> (ascii ''h1'', ascii ''t1'')), ascii ''t1'')
   \<and> update_history_entry (Map.empty(ascii ''a/1.md'' \<mapsto> (ascii ''h1'', ascii ''t1'')))
        (ascii ''a/1.md'') (ascii ''h2'') (ascii ''t2'')
     = (Map.empty(ascii ''a/1.md'' \<mapsto> (ascii ''h2'', ascii ''t2'')), ascii ''t2'')"
  using update_history_entry_record
          [of Map.empty "ascii ''a/1.md''" "ascii ''h1''" "ascii ''t1''"]
        update_history_entry_record
          [of "Map.empty(ascii ''a/1.md'' \<mapsto> (ascii ''h1'', ascii ''t1''))"
              "ascii ''a/1.md''" "ascii ''h1''" "ascii ''t2''"]
        update_history_entry_record
          [of "Map.empty(ascii ''a/1.md'' \<mapsto> (ascii ''h1'', ascii ''t1''))"
              "ascii ''a/1.md''" "ascii ''h2''" "ascii ''t2''"]
  by (simp add: replace_backslash_def ascii_def)

text \<open>
  C10. \<open>update_history_entry\<close> looks up and stores under the path with every backslash
  replaced by a slash: two spellings that differ only in their separators give the same
  call, the key it stores has no backslash, and after any sequence of calls every key of
  the history that was not there before has none.
\<close>

theorem update_history_entry_normalizes_key:
  "(same_but_separators k1 k2
      \<longrightarrow> update_history_entry h k1 new_hash now = update_history_entry h k2 new_hash now)
   \<and> dom (fst (update_history_entry h key new_hash now)) = insert (replace_backslash key) (dom h)
   \<and> 92 \<notin> set (replace_backslash key)
   \<and> (\<forall>k \<in> dom (record_calls h calls). k \<in> dom h \<or> 92 \<notin> set k)"
proof -
  have a: "same_but_separators k1 k2
             \<longrightarrow> update_history_entry h k1 new_hash now = update_history_entry h k2 new_hash now"
    using replace_backslash_same [of k1 k2] by (simp add: update_history_entry_def)
  have b: "\<forall>k \<in> dom (record_calls h calls). k \<in> dom h \<or> 92 \<notin> set k"
    using dom_record_calls by blast
  from a b show ?thesis
    using dom_update_history_entry [of h key new_hash now]
          replace_backslash_no_backslash [of key]
    by blast
qed

theorem update_history_entry_normalizes_key_witness:
  "same_but_separators [97, 92, 98] [97, 47, 98]
   \<and> update_history_entry Map.empty [97, 92, 98] (ascii ''h1'') (ascii ''t1'')
       = update_history_entry Map.empty [97, 47, 98] (ascii ''h1'') (ascii ''t1'')
   \<and> [97, 47, 98] \<in> dom (record_calls Map.empty [([97, 92, 98], ascii ''h1'', ascii ''t1'')])
   \<and> 92 \<notin> set [97, 47, 98 :: nat]"
  using update_history_entry_normalizes_key
          [of "[97, 92, 98]" "[97, 47, 98]" Map.empty "ascii ''h1''" "ascii ''t1''"
              "[97, 92, 98]" "[([97, 92, 98], ascii ''h1'', ascii ''t1'')]"]
  by (simp add: same_but_separators_def record_calls_def update_history_entry_def
                replace_backslash_def)

section \<open>The section parser\<close>

lemma set_dict_keys_dict_set: "set (dict_keys (dict_set d k v)) = insert k (set (dict_keys d))"
proof (induction d)
  case Nil
  then show ?case by (simp add: dict_keys_def)
next
  case (Cons kv d)
  then show ?case by (cases kv) (auto simp: dict_keys_def)
qed

lemma dict_keys_dict_set_new: "k \<notin> set (dict_keys d) \<Longrightarrow> dict_keys (dict_set d k v) = dict_keys d @ [k]"
  by (induction d) (auto simp: dict_keys_def)

lemma marker_names_Nil [simp]: "marker_names [] = []"
  by (simp add: marker_names_def)

lemma marker_names_Cons:
  "marker_names (l # ls) = (case marker_name l of None \<Rightarrow> marker_names ls | Some k \<Rightarrow> k # marker_names ls)"
  by (simp add: marker_names_def split: option.splits)

lemma marker_names_append: "marker_names (xs @ ys) = marker_names xs @ marker_names ys"
  by (induction xs) (simp_all add: marker_names_Cons split: option.splits)

lemma md_scan_marker:
  "marker_name l = Some k \<Longrightarrow>
   md_scan result cur buf (l # rest) =
     (let result' = (case cur of None \<Rightarrow> result | Some ck \<Rightarrow> dict_set result ck (join [10] buf));
          buf' = (case cur of None \<Rightarrow> buf | Some ck \<Rightarrow> [])
      in if dict_has result' k then Inl (duplicate_error k) else md_scan result' (Some k) buf' rest)"
  by (auto simp: marker_name_def Let_def duplicate_error_def split: if_splits)

lemma md_scan_other:
  "marker_name l = None \<Longrightarrow>
   md_scan result cur buf (l # rest) =
     (case cur of None \<Rightarrow> md_scan result cur buf rest
      | Some ck \<Rightarrow> md_scan result cur (buf @ [rstrip_nl l]) rest)"
  by (auto simp: marker_name_def Let_def split: if_splits)

declare md_scan.simps(2) [simp del]

lemma md_scan_duplicate:
  "first_repeated (set (known result cur)) (marker_names ls) = Some k \<Longrightarrow>
   md_scan result cur buf ls = Inl (duplicate_error k)"
proof (induction ls arbitrary: result cur buf)
  case Nil
  then show ?case by simp
next
  case (Cons l ls)
  show ?case
  proof (cases "marker_name l")
    case None
    with Cons.prems have "first_repeated (set (known result cur)) (marker_names ls) = Some k"
      by (simp add: marker_names_Cons)
    then show ?thesis
      using None Cons.IH by (cases cur) (simp_all add: md_scan_other)
  next
    case (Some k')
    define result' where "result' = (case cur of None \<Rightarrow> result | Some ck \<Rightarrow> dict_set result ck (join [10] buf))"
    define buf' where "buf' = (case cur of None \<Rightarrow> buf | Some ck \<Rightarrow> [])"
    have keys: "set (dict_keys result') = set (known result cur)"
      by (auto simp: result'_def known_def set_dict_keys_dict_set split: option.splits)
    have step: "md_scan result cur buf (l # ls) =
        (if dict_has result' k' then Inl (duplicate_error k') else md_scan result' (Some k') buf' ls)"
      using Some by (simp add: md_scan_marker result'_def buf'_def Let_def)
    show ?thesis
    proof (cases "k' \<in> set (known result cur)")
      case True
      with Cons.prems Some have "k = k'" by (simp add: marker_names_Cons)
      with True keys step show ?thesis by (simp add: dict_has_def dict_keys_def)
    next
      case False
      with Cons.prems Some
      have "first_repeated (insert k' (set (known result cur))) (marker_names ls) = Some k"
        by (simp add: marker_names_Cons)
      moreover have "set (known result' (Some k')) = insert k' (set (known result cur))"
        using keys by (simp add: known_def)
      ultimately have "md_scan result' (Some k') buf' ls = Inl (duplicate_error k)"
        using Cons.IH by simp
      with False keys step show ?thesis by (simp add: dict_has_def dict_keys_def)
    qed
  qed
qed

lemma md_scan_keys:
  "first_repeated (set (known result cur)) (marker_names ls) = None \<Longrightarrow>
   distinct (known result cur) \<Longrightarrow>
   \<exists>st. md_scan result cur buf ls = Inr st
        \<and> dict_keys (md_flush st) = known result cur @ marker_names ls"
proof (induction ls arbitrary: result cur buf)
  case Nil
  then show ?case
    by (auto simp: md_flush_def known_def dict_keys_dict_set_new split: option.splits)
next
  case (Cons l ls)
  show ?case
  proof (cases "marker_name l")
    case None
    with Cons.prems have "first_repeated (set (known result cur)) (marker_names ls) = None"
      by (simp add: marker_names_Cons)
    from Cons.IH [OF this Cons.prems(2)] show ?thesis
      using None by (cases cur) (simp_all add: md_scan_other marker_names_Cons)
  next
    case (Some k')
    define result' where "result' = (case cur of None \<Rightarrow> result | Some ck \<Rightarrow> dict_set result ck (join [10] buf))"
    define buf' where "buf' = (case cur of None \<Rightarrow> buf | Some ck \<Rightarrow> [])"
    have keys: "dict_keys result' = known result cur"
      using Cons.prems(2)
      by (auto simp: result'_def known_def dict_keys_dict_set_new split: option.splits)
    have step: "md_scan result cur buf (l # ls) =
        (if dict_has result' k' then Inl (duplicate_error k') else md_scan result' (Some k') buf' ls)"
      using Some by (simp add: md_scan_marker result'_def buf'_def Let_def)
    from Cons.prems(1) Some have new: "k' \<notin> set (known result cur)"
      and rest: "first_repeated (insert k' (set (known result cur))) (marker_names ls) = None"
      by (auto simp: marker_names_Cons split: if_splits)
    have k: "known result' (Some k') = known result cur @ [k']"
      using keys by (simp add: known_def)
    have "first_repeated (set (known result' (Some k'))) (marker_names ls) = None"
      using rest k by simp
    moreover have "distinct (known result' (Some k'))"
      using k new Cons.prems(2) by simp
    ultimately obtain st where "md_scan result' (Some k') buf' ls = Inr st"
      and "dict_keys (md_flush st) = known result' (Some k') @ marker_names ls"
      using Cons.IH by blast
    with new keys step k Some show ?thesis
      by (simp add: dict_has_def dict_keys_def marker_names_Cons)
  qed
qed

lemma first_repeated_None: "first_repeated S xs = None \<longleftrightarrow> distinct xs \<and> set xs \<inter> S = {}"
  by (induction xs arbitrary: S) auto

lemma first_repeated_split:
  "distinct pre \<Longrightarrow> set pre \<inter> S = {} \<Longrightarrow> k \<in> S \<union> set pre \<Longrightarrow>
   first_repeated S (pre @ k # rest) = Some k"
  by (induction pre arbitrary: S) auto

lemma first_repeated_Some:
  "first_repeated S xs = Some k \<Longrightarrow>
   \<exists>pre rest. xs = pre @ k # rest \<and> distinct pre \<and> set pre \<inter> S = {} \<and> k \<in> S \<union> set pre"
proof (induction xs arbitrary: S)
  case Nil then show ?case by simp
next
  case (Cons x xs)
  show ?case
  proof (cases "x \<in> S")
    case True
    with Cons.prems have "k = x" by simp
    with True show ?thesis by (intro exI[of _ "[]"] exI[of _ xs]) simp
  next
    case False
    with Cons.prems have "first_repeated (insert x S) xs = Some k" by simp
    from Cons.IH[OF this] obtain pre rest where
      "xs = pre @ k # rest" "distinct pre" "set pre \<inter> insert x S = {}" "k \<in> insert x S \<union> set pre"
      by blast
    with False show ?thesis
      by (intro exI[of _ "x # pre"] exI[of _ rest]) auto
  qed
qed


lemma rev_dropWhile_rev_Cons:
  "rev (dropWhile P (rev (a # s))) =
     (if (\<forall>x\<in>set s. P x) \<and> P a then [] else a # rev (dropWhile P (rev s)))"
  by (auto simp: dropWhile_append)

lemma set_rev_dropWhile_rev: "set (rev (dropWhile P (rev s))) \<subseteq> set s"
  using set_dropWhileD [of _ P "rev s"] by auto

lemma strip_all_space: "list_all isspace s \<Longrightarrow> strip s = []"
proof -
  assume "list_all isspace s"
  then have h: "dropWhile isspace s = []"
    by (simp add: list_all_iff)
  show ?thesis unfolding strip_def lstrip_def rstrip_def h by simp
qed

lemma marker_name_empty:
  assumes "list_all isspace ws"
  shows "marker_name (ascii ''# '' @ ws) = Some []"
proof -
  have a: "ascii ''# '' = [35, 32]" by (simp add: ascii_def)
  have r: "rstrip_nl (35 # 32 # ws) = 35 # 32 # rstrip_nl ws"
    unfolding rstrip_nl_def by (simp only: rev_dropWhile_rev_Cons) simp
  have "list_all isspace (rstrip_nl ws)"
    using assms set_rev_dropWhile_rev [of "\<lambda>c. c = 10" ws]
    by (auto simp: list_all_iff rstrip_nl_def)
  then have s: "strip (rstrip_nl ws) = []" by (rule strip_all_space)
  have l: "lstrip (35 # 32 # rstrip_nl ws) = 35 # 32 # rstrip_nl ws"
    by (simp add: lstrip_def isspace_def)
  show ?thesis
    by (simp add: marker_name_def a r l s startswith_def)
qed

lemma md_to_json_file_keys:
  "md_to_json_file (Some (Decoded text)) = Inr d \<Longrightarrow> dict_keys d = marker_names (readlines text)"
proof -
  assume d: "md_to_json_file (Some (Decoded text)) = Inr d"
  show ?thesis
  proof (cases "first_repeated {} (marker_names (readlines text))")
    case None
    then obtain st where "md_scan [] None [] (readlines text) = Inr st"
      and "dict_keys (md_flush st) = marker_names (readlines text)"
      using md_scan_keys [of "[]" None "readlines text" "[]"] by (auto simp: known_def dict_keys_def)
    with d show ?thesis by (simp add: md_to_json_file_def)
  next
    case (Some k)
    then have "md_scan [] None [] (readlines text) = Inl (duplicate_error k)"
      using md_scan_duplicate [of "[]" None "readlines text" k "[]"] by (simp add: known_def dict_keys_def)
    with d show ?thesis by (simp add: md_to_json_file_def)
  qed
qed

lemma md_to_json_file_distinct:
  "distinct (marker_names (readlines text)) \<longleftrightarrow> (\<exists>d. md_to_json_file (Some (Decoded text)) = Inr d)"
proof (cases "first_repeated {} (marker_names (readlines text))")
  case None
  then obtain st where "md_scan [] None [] (readlines text) = Inr st"
    using md_scan_keys [of "[]" None "readlines text" "[]"] by (auto simp: known_def dict_keys_def)
  moreover from None have "distinct (marker_names (readlines text))"
    by (simp add: first_repeated_None)
  ultimately show ?thesis by (simp add: md_to_json_file_def)
next
  case (Some k)
  then have "md_scan [] None [] (readlines text) = Inl (duplicate_error k)"
    using md_scan_duplicate [of "[]" None "readlines text" k "[]"] by (simp add: known_def dict_keys_def)
  moreover from Some have "\<not> distinct (marker_names (readlines text))"
    using first_repeated_None [of "{}" "marker_names (readlines text)"] by simp
  ultimately show ?thesis by (simp add: md_to_json_file_def)
qed

text \<open>
  C9, as amended. A line is a top-level marker exactly when, after stripping leading
  whitespace, it begins with the marker character and a space; its name is the rest,
  stripped, and may be empty. So a line of the marker character, a space and nothing but
  whitespace is a marker with the empty name; every marker of a document that parses
  contributes its name as a key, in order, the empty one included; and a document parses
  exactly when the names of its markers are distinct.
\<close>

theorem md_to_json_marker_lines:
  "(list_all isspace ws \<longrightarrow> marker_name (ascii ''# '' @ ws) = Some [])
   \<and> (\<forall>d. md_to_json_file (Some (Decoded text)) = Inr d
          \<longrightarrow> dict_keys d = marker_names (readlines text))
   \<and> (distinct (marker_names (readlines text))
        \<longleftrightarrow> (\<exists>d. md_to_json_file (Some (Decoded text)) = Inr d))"
  using marker_name_empty [of ws] md_to_json_file_keys [of "text"] md_to_json_file_distinct [of "text"]
  by blast

text \<open>
  C8. A document in which two top-level markers have the same name does not parse:
  \<open>md_to_json\<close> raises \<open>JsonKeyDuplicateError\<close> naming a name \<open>k\<close> that occurs twice,
  the first to do so. It is raised when the second marker of that name is scanned: the
  lines after it do not matter, and an undecodable rest of the file is never read.
\<close>

theorem md_to_json_duplicate_key:
  "(\<not> distinct (marker_names (readlines text)) \<longrightarrow>
      (\<exists>k pre rest. marker_names (readlines text) = pre @ k # rest
          \<and> distinct pre \<and> k \<in> set pre
          \<and> md_to_json_file (Some (Decoded text)) = Inl (duplicate_error k)))
   \<and> (marker_name l = Some k \<and> k \<in> set (marker_names pre) \<and> distinct (marker_names pre) \<longrightarrow>
        (\<forall>rest. md_scan [] None [] (pre @ l # rest) = Inl (duplicate_error k))
        \<and> md_to_json_file (Some (Undecodable (pre @ [l]))) = Inl (duplicate_error k))"
proof -
  have a: "\<exists>k pre rest. marker_names (readlines text) = pre @ k # rest
          \<and> distinct pre \<and> k \<in> set pre
          \<and> md_to_json_file (Some (Decoded text)) = Inl (duplicate_error k)"
    if "\<not> distinct (marker_names (readlines text))"
  proof -
    from that obtain k where k: "first_repeated {} (marker_names (readlines text)) = Some k"
      using first_repeated_None [of "{}" "marker_names (readlines text)"] by auto
    then have "md_scan [] None [] (readlines text) = Inl (duplicate_error k)"
      using md_scan_duplicate [of "[]" None "readlines text" k "[]"] by (simp add: known_def dict_keys_def)
    then have "md_to_json_file (Some (Decoded text)) = Inl (duplicate_error k)"
      by (simp add: md_to_json_file_def)
    with first_repeated_Some [OF k] show ?thesis by auto
  qed
  have b: "md_scan [] None [] (pre @ l # rest) = Inl (duplicate_error k)"
    if "marker_name l = Some k" "k \<in> set (marker_names pre)" "distinct (marker_names pre)" for rest
  proof -
    have "marker_names (pre @ l # rest) = marker_names pre @ k # marker_names rest"
      using that(1) by (simp add: marker_names_append marker_names_Cons)
    then have "first_repeated {} (marker_names (pre @ l # rest)) = Some k"
      using first_repeated_split [of "marker_names pre" "{}" k "marker_names rest"] that by simp
    then show ?thesis
      using md_scan_duplicate [of "[]" None "pre @ l # rest" k "[]"] by (simp add: known_def dict_keys_def)
  qed
  have c: "md_to_json_file (Some (Undecodable (pre @ [l]))) = Inl (duplicate_error k)"
    if "marker_name l = Some k" "k \<in> set (marker_names pre)" "distinct (marker_names pre)"
    using b [OF that, of "[]"] by (simp add: md_to_json_file_def)
  from a b c show ?thesis by blast
qed

lemmas md_eval = md_to_json_file_def readlines_def marker_names_Cons marker_name_def
  lstrip_def rstrip_def strip_def rstrip_nl_def startswith_def isspace_def ascii_def
  duplicate_error_def md_scan.simps md_flush_def dict_has_def Let_def

theorem md_to_json_duplicate_key_witness:
  "\<not> distinct (marker_names (readlines (ascii ''# a\<newline>x\<newline># a\<newline>'')))
   \<and> md_to_json_file (Some (Decoded (ascii ''# a\<newline>x\<newline># a\<newline>''))) = Inl (duplicate_error (ascii ''a''))
   \<and> md_scan [] None [] ([ascii ''# a\<newline>'', ascii ''x\<newline>''] @ ascii ''# a\<newline>'' # [ascii ''# b\<newline>'']) = Inl (duplicate_error (ascii ''a''))"
  using md_to_json_duplicate_key [of "ascii ''# a\<newline>x\<newline># a\<newline>''" "ascii ''# a\<newline>''" "ascii ''a''" "[ascii ''# a\<newline>'', ascii ''x\<newline>'']"]
  by (simp add: md_eval)

text \<open>
  C9 as stated fails: a line of the marker character and a space is a marker. The document
  of that line and a body parses to a map with the empty key, and a document with two such
  lines raises the duplicate error.
\<close>

theorem md_to_json_empty_name_counterexample:
  "md_to_json_file (Some (Decoded (ascii ''# \<newline>body''))) = Inr [([], ascii ''body'')]
   \<and> md_to_json_file (Some (Decoded (ascii ''# \<newline>#  \<newline>''))) = Inl (duplicate_error [])"
  by (simp add: md_eval)

theorem md_to_json_marker_lines_witness:
  "list_all isspace [32, 9] \<and> marker_name (ascii ''# '' @ [32, 9]) = Some []
   \<and> md_to_json_file (Some (Decoded (ascii ''# \<newline>body''))) = Inr [([], ascii ''body'')]
   \<and> dict_keys [([], ascii ''body'')] = marker_names (readlines (ascii ''# \<newline>body''))"
  using md_to_json_marker_lines [of "[32, 9]" "ascii ''# \<newline>body''"]
  by (simp add: md_eval dict_keys_def)

section \<open>The story validator\<close>

lemma set_set_iter [simp]: "set (set_iter e xs) = set xs"
  by (simp add: set_iter_def)

text \<open>
  When \<open>number\<close> is missing or blank, the checks have recorded an error: the record is
  never built without a number.
\<close>

lemma story_no_number_has_error:
  "\<not> dict_has data (ascii ''number'') \<or> strip (dict_get_or_empty data (ascii ''number'')) = []
   \<Longrightarrow> story_checks e data \<noteq> []"
proof (cases "dict_has data (ascii ''number'')")
  case True
  assume "\<not> dict_has data (ascii ''number'')
          \<or> strip (dict_get_or_empty data (ascii ''number'')) = []"
  with True show ?thesis by (simp add: story_checks_def Let_def)
next
  case False
  then have "ascii ''number'' \<in> set (filter (\<lambda>key. \<not> dict_has data key)
       (set_iter e [ascii ''title'', ascii ''number'', ascii ''content'']))"
    by simp
  then have "filter (\<lambda>key. \<not> dict_has data key)
       (set_iter e [ascii ''title'', ascii ''number'', ascii ''content'']) \<noteq> []"
    by (metis empty_iff empty_set)
  then show ?thesis by (simp add: story_checks_def Let_def)
qed

lemma Story_load_if_valid_errors_nonempty:
  "Story_load_if_valid e p = Inr (Errors es) \<Longrightarrow> es \<noteq> []"
  using story_no_number_has_error [of _ e]
  by (auto simp: Story_load_if_valid_def story_result_def Let_def
           split: if_splits sum.splits exn.splits option.splits)




section \<open>Documents that do not decode\<close>

text \<open>
  C3. The error lists of the three validators are never empty, and a missing document
  gives one message. But a story document or an index document that is no valid UTF-8
  makes \<open>Story.load_if_valid\<close> and \<open>Novel.load_if_valid\<close> raise
  \<open>UnicodeDecodeError\<close>, which only \<open>TopPage.load_if_valid\<close> catches: here for files
  whose first bytes already fail to decode.
\<close>

theorem validators_undecodable_document:
  "Story_load_if_valid (example_env [(ascii ''n/1.md'', Undecodable [])] [] []) (ascii ''n/1.md'')
     = Inl UnicodeDecodeError
   \<and> Novel_load_if_valid (example_env [(ascii ''n/index.md'', Undecodable [])] [] [])
       (ascii ''n/index.md'')
     = Inl UnicodeDecodeError
   \<and> TopPage_load_if_valid (example_env [(ascii ''self_intro.md'', Undecodable [])] [] [])
       (ascii ''self_intro.md'')
     = Inr (Errors [ascii ''Self intro file is not valid UTF-8: self_intro.md''])"
  by (simp add: story_eval novel_eval toppage_eval str_eval)

text \<open>
  A second way out of the two outcomes: \<open>_is_int_string\<close> accepts every character of
  \<open>str.isdigit\<close>, \<open>int\<close> only the decimal digits, so a number written with a superscript
  two passes the check and makes \<open>int\<close> raise \<open>ValueError\<close>.
\<close>

lemma Story_load_if_valid_superscript_number:
  "Story_load_if_valid
     (example_env [(ascii ''n/1.md'',
        Decoded (ascii ''# title\<newline>T\<newline># number\<newline>'' @ [178] @ ascii ''\<newline># content\<newline>C\<newline>''))] [] [])
     (ascii ''n/1.md'')
     = Inl ValueError"
  by (simp add: story_eval str_eval dict_eval int_eval)

lemma Novel_load_if_valid_errors_nonempty:
  "Novel_load_if_valid e p = Inr (Errors es) \<Longrightarrow> es \<noteq> []"
  by (auto simp: Novel_load_if_valid_def Let_def
           split: if_splits sum.splits exn.splits option.splits prod.splits)

lemma TopPage_load_if_valid_errors_nonempty:
  "TopPage_load_if_valid e p = Inr (Errors es) \<Longrightarrow> es \<noteq> []"
  by (auto simp: TopPage_load_if_valid_def Let_def
           split: if_splits sum.splits exn.splits option.splits prod.splits file_data.splits)

section \<open>The hash of a story\<close>

lemma length_hex_word [simp]: "length (hex_word w) = 8"
  by (simp add: hex_word_def)

lemma length_sha256 [simp]: "length (sha256 m) = 8"
  by (simp add: sha256_def Let_def split: prod.splits)

lemma length_hexdigest: "length ws = 8 \<Longrightarrow> length (hexdigest ws) = 64"
  by (simp add: hexdigest_def length_concat o_def sum_list_triv)

lemma encode_utf8_scalar:
  "list_all unicode_scalar s \<Longrightarrow> \<exists>bytes. encode_utf8 s = Inr bytes"
proof (induction s)
  case Nil
  then show ?case by simp
next
  case (Cons c cs)
  then obtain rest where "encode_utf8 cs = Inr rest" by auto
  moreover from Cons.prems have "unicode_scalar c" by simp
  then have "encode_char c \<noteq> None"
    unfolding unicode_scalar_def encode_char_def by auto
  then obtain bs where "encode_char c = Some bs" by blast
  ultimately show ?case by simp
qed

lemma nat_str_scalar: "list_all unicode_scalar (nat_str n)"
proof (induction n rule: nat_str.induct)
  case (1 n)
  show ?case
  proof (cases "n < 10")
    case True
    then show ?thesis by (subst nat_str.simps) (simp add: unicode_scalar_def)
  next
    case False
    have "unicode_scalar (48 + n mod 10)"
      unfolding unicode_scalar_def by (rule disjI1) arith
    with False "1.IH" show ?thesis by (subst nat_str.simps) simp
  qed
qed

lemma int_str_scalar: "list_all unicode_scalar (int_str i)"
  by (simp add: int_str_def nat_str_scalar unicode_scalar_def)

text \<open>
  C6. \<open>Story.hash\<close> is the SHA-256 digest, as 64 hexadecimal digits (256 bits), of the
  UTF-8 bytes of the title, the decimal string of the number and the content, in that
  order, with a line feed between them; it is there for all strings that UTF-8 encodes,
  which those read from a file are. Two stories with the same title, number and content
  have the same hash, whatever their paths.
\<close>

theorem Story_hash_sha256:
  "(list_all unicode_scalar (s_title s @ s_content s) \<longrightarrow>
      (\<exists>bytes. encode_utf8 (s_title s @ [10] @ int_str (s_number s) @ [10] @ s_content s)
                  = Inr bytes
         \<and> Story_hash s = Inr (hexdigest (sha256 bytes))
         \<and> length (hexdigest (sha256 bytes)) = 64))
   \<and> (s_title s = s_title s' \<and> s_number s = s_number s' \<and> s_content s = s_content s'
        \<longrightarrow> Story_hash s = Story_hash s')"
proof -
  have a: "\<exists>bytes. encode_utf8 (s_title s @ [10] @ int_str (s_number s) @ [10] @ s_content s)
                  = Inr bytes
         \<and> Story_hash s = Inr (hexdigest (sha256 bytes))
         \<and> length (hexdigest (sha256 bytes)) = 64"
    if "list_all unicode_scalar (s_title s @ s_content s)"
  proof -
    have "list_all unicode_scalar (s_title s @ [10] @ int_str (s_number s) @ [10] @ s_content s)"
      using that int_str_scalar [of "s_number s"] by (simp add: unicode_scalar_def)
    then obtain bytes where
      "encode_utf8 (s_title s @ [10] @ int_str (s_number s) @ [10] @ s_content s) = Inr bytes"
      using encode_utf8_scalar by blast
    then show ?thesis
      by (simp add: Story_hash_def Let_def length_hexdigest)
  qed
  have b: "Story_hash s = Story_hash s'"
    if "s_title s = s_title s' \<and> s_number s = s_number s' \<and> s_content s = s_content s'"
    using that by (simp add: Story_hash_def)
  from a b show ?thesis by blast
qed

theorem Story_hash_sha256_witness:
  "s_path \<lparr> s_path = ascii ''a/1.md'', s_title = ascii ''T'', s_number = 1,
            s_content = ascii ''C'', s_length = 1 \<rparr>
     \<noteq> s_path \<lparr> s_path = ascii ''b/2.md'', s_title = ascii ''T'', s_number = 1,
                 s_content = ascii ''C'', s_length = 1 \<rparr>
   \<and> Story_hash \<lparr> s_path = ascii ''a/1.md'', s_title = ascii ''T'', s_number = 1,
                   s_content = ascii ''C'', s_length = 1 \<rparr>
     = Story_hash \<lparr> s_path = ascii ''b/2.md'', s_title = ascii ''T'', s_number = 1,
                     s_content = ascii ''C'', s_length = 1 \<rparr>
   \<and> (\<exists>h. Story_hash \<lparr> s_path = ascii ''a/1.md'', s_title = ascii ''T'', s_number = 1,
                         s_content = ascii ''C'', s_length = 1 \<rparr> = Inr h
          \<and> length h = 64)"
proof -
  let ?s1 = "\<lparr> s_path = ascii ''a/1.md'', s_title = ascii ''T'', s_number = 1,
               s_content = ascii ''C'', s_length = 1 \<rparr>"
  let ?s2 = "\<lparr> s_path = ascii ''b/2.md'', s_title = ascii ''T'', s_number = 1,
               s_content = ascii ''C'', s_length = 1 \<rparr>"
  note w = Story_hash_sha256 [of ?s1 ?s2]
  have p: "s_path ?s1 \<noteq> s_path ?s2" by (simp add: ascii_def)
  have h1: "list_all unicode_scalar (s_title ?s1 @ s_content ?s1)"
    by (simp add: unicode_scalar_def ascii_def)
  have h2: "s_title ?s1 = s_title ?s2 \<and> s_number ?s1 = s_number ?s2
            \<and> s_content ?s1 = s_content ?s2"
    by simp
  from w h1 have "\<exists>h. Story_hash ?s1 = Inr h \<and> length h = 64" by blast
  moreover from w h2 have "Story_hash ?s1 = Story_hash ?s2" by blast
  ultimately show ?thesis using p by blast
qed

section \<open>Chapters\<close>

lemma dict_set_new: "k \<notin> set (map fst d) \<Longrightarrow> dict_set d k v = d @ [(k, v)]"
  by (induction d) auto

lemma chapters_loop_distinct:
  "chapters_loop ls tmp titles_seen nums_seen = Inr (msgs, tmp') \<Longrightarrow>
   set titles_seen = set (map fst tmp) \<Longrightarrow> set nums_seen = set (map snd tmp) \<Longrightarrow>
   distinct (map fst tmp) \<Longrightarrow> distinct (map snd tmp) \<Longrightarrow>
   distinct (map fst tmp') \<and> distinct (map snd tmp')"
proof (induction ls arbitrary: tmp titles_seen nums_seen)
  case Nil
  then show ?case by simp
next
  case (Cons l ls)
  define k where "k = strip (takeWhile (\<lambda>c. c \<noteq> 58) l)"
  define v where "v = strip (tl (dropWhile (\<lambda>c. c \<noteq> 58) l))"
  show ?case
  proof (cases "58 \<in> set l \<and> k \<noteq> [] \<and> v \<noteq> [] \<and> k \<notin> set titles_seen \<and> is_int_string v
               \<and> (\<exists>num. py_int v = Some num \<and> num \<notin> set nums_seen)")
    case True
    then obtain num where num: "py_int v = Some num" "num \<notin> set nums_seen" by blast
    with True Cons.prems(1)
    have step: "chapters_loop ls (dict_set tmp k num) (k # titles_seen) (num # nums_seen)
                  = Inr (msgs, tmp')"
      by (simp add: k_def v_def Let_def)
    from True Cons.prems(2) have new: "k \<notin> set (map fst tmp)" by simp
    then have d: "dict_set tmp k num = tmp @ [(k, num)]" by (rule dict_set_new)
    show ?thesis
    proof (rule Cons.IH [OF step])
      show "set (k # titles_seen) = set (map fst (dict_set tmp k num))"
        using Cons.prems(2) d by simp
      show "set (num # nums_seen) = set (map snd (dict_set tmp k num))"
        using Cons.prems(3) d by simp
      show "distinct (map fst (dict_set tmp k num))"
        using Cons.prems(4) d new by simp
      show "distinct (map snd (dict_set tmp k num))"
        using Cons.prems(3,5) d num(2) by simp
    qed
  next
    case False
    with Cons.prems(1) have "tmp' = []"
      by (auto simp: k_def v_def Let_def split: if_splits option.splits)
    then show ?thesis by simp
  qed
qed

lemma novel_chapters_Some:
  assumes "novel_chapters chapters_val errors = Inr (errors', Some ch, has_chapters)"
  shows "errors' = [] \<and> has_chapters \<and> ch \<noteq> [] \<and> distinct (map fst ch)
         \<and> sorted_wrt (<) (map snd ch)"
proof -
  from assms obtain v msgs tmp where
    loop: "chapters_loop (stripped_lines v) [] [] [] = Inr (msgs, tmp)"
    and tmp: "tmp \<noteq> []" and ch: "ch = sort_key snd tmp"
    and rest: "errors' = []" "has_chapters"
    by (auto simp: novel_chapters_def Let_def split: option.splits if_splits sum.splits prod.splits)
  from chapters_loop_distinct [OF loop]
  have d: "distinct (map fst tmp)" "distinct (map snd tmp)" by simp_all
  have "mset (map fst ch) = mset (map fst tmp)"
    unfolding ch by (metis mset_map mset_sort)
  with d(1) have "distinct (map fst ch)"
    by (metis mset_eq_imp_distinct_iff)
  moreover have "distinct (map snd ch)"
    unfolding ch using d(2) by (metis distinct_map distinct_sort set_sort)
  moreover have "sorted (map snd ch)"
    unfolding ch by (rule sorted_sort_key)
  moreover have "ch \<noteq> []" unfolding ch using tmp
    by (metis length_sort length_0_conv)
  ultimately show ?thesis using rest
    by (simp add: strict_sorted_iff)
qed

lemma novel_chapters_None:
  "novel_chapters chapters_val errors = Inr (errors', None, has_chapters) \<Longrightarrow> \<not> has_chapters"
  by (auto simp: novel_chapters_def Let_def split: option.splits if_splits sum.splits prod.splits)

lemma novel_chapters_errors:
  "novel_chapters chapters_val errors = Inr (errors', chd, has_chapters) \<Longrightarrow>
   \<exists>more. errors' = errors @ more"
  by (auto simp: novel_chapters_def Let_def split: option.splits if_splits sum.splits prod.splits)

lemma novel_index_unfold:
  assumes "novel_index e data = Inr (errors, el, hel, chd, has_chapters)"
  obtains more where
    "novel_chapters (dict_get data (ascii ''chapters'')) (novel_checks e data @ more)
       = Inr (errors, chd, has_chapters)"
proof -
  let ?more = "case dict_get data (ascii ''external links'') of
                 None \<Rightarrow> [] | Some v \<Rightarrow> external_links_errors v"
  from assms
  have "novel_chapters (dict_get data (ascii ''chapters'')) (novel_checks e data @ ?more)
          = Inr (errors, chd, has_chapters)"
    by (simp add: novel_index_def Let_def split: sum.splits prod.splits)
  then show ?thesis by (rule that)
qed

lemma novel_index_Some:
  assumes "novel_index e data = Inr (errors, el, hel, Some ch, has_chapters)"
  shows "errors = [] \<and> has_chapters \<and> ch \<noteq> [] \<and> distinct (map fst ch)
         \<and> sorted_wrt (<) (map snd ch)"
  using assms by (elim novel_index_unfold) (rule novel_chapters_Some)

lemma novel_index_None:
  assumes "novel_index e data = Inr (errors, el, hel, None, has_chapters)"
  shows "\<not> has_chapters"
  using assms by (elim novel_index_unfold) (rule novel_chapters_None)

lemma novel_index_checks:
  assumes "novel_index e data = Inr ([], el, hel, chd, has_chapters)"
  shows "novel_checks e data = []"
proof -
  from assms obtain more where
    "novel_chapters (dict_get data (ascii ''chapters'')) (novel_checks e data @ more)
       = Inr ([], chd, has_chapters)"
    by (rule novel_index_unfold)
  from novel_chapters_errors [OF this] show ?thesis by simp
qed

lemma find_chapter_None:
  "find_chapter_for_number n bounds = None \<longleftrightarrow> (\<forall>tb\<in>set bounds. snd tb < n)"
  by (induction n bounds rule: find_chapter_for_number.induct) auto

lemma find_chapter_Some:
  "find_chapter_for_number n bounds = Some t \<Longrightarrow>
   \<exists>b pre post. bounds = pre @ (t, b) # post \<and> n \<le> b \<and> (\<forall>tb\<in>set pre. snd tb < n)"
proof (induction n bounds rule: find_chapter_for_number.induct)
  case (1 n)
  then show ?case by simp
next
  case (2 n title boundary bounds)
  show ?case
  proof (cases "n \<le> boundary")
    case True
    with 2 have "t = title" by simp
    with True show ?thesis by (intro exI [of _ boundary] exI [of _ "[]"] exI [of _ bounds]) simp
  next
    case False
    with 2 obtain b pre post where
      "bounds = pre @ (t, b) # post" "n \<le> b" "\<forall>tb\<in>set pre. snd tb < n"
      by auto
    with False show ?thesis
      by (intro exI [of _ b] exI [of _ "(title, boundary) # pre"] exI [of _ post]) auto
  qed
qed

lemma find_chapter_case:
  "case find_chapter_for_number n bounds of
     None \<Rightarrow> (\<forall>tb\<in>set bounds. snd tb < n)
   | Some t \<Rightarrow> (\<exists>b pre post. bounds = pre @ (t, b) # post \<and> n \<le> b
                  \<and> (\<forall>tb\<in>set pre. snd tb < n))"
  using find_chapter_None [of n bounds] find_chapter_Some [of n bounds]
  by (cases "find_chapter_for_number n bounds") auto

lemma Novel_load_if_valid_unassigned:
  assumes "files e p \<noteq> None" "md_to_json e p = Inr data"
    and "novel_index e data = Inr ([], el, hel, Some ch, has_chapters)"
    and "load_stories e (story_files e p) = Inr (msgs, stories)"
    and "s \<in> set stories" "\<forall>tb\<in>set ch. snd tb < s_number s"
  shows "\<exists>es. Novel_load_if_valid e p = Inr (Errors es) \<and> chapter_error s \<in> set es"
proof -
  from novel_index_Some [OF assms(3)] have hc: "has_chapters" "ch \<noteq> []" by simp_all
  from assms(6) have "find_chapter_for_number (s_number s) ch = None"
    by (simp add: find_chapter_None)
  with assms(5) hc have "chapter_error s \<in> set (chapter_errors has_chapters (Some ch) stories)"
    by (simp add: chapter_errors_def)
  then show ?thesis
    using assms(1-4) by (auto simp: Novel_load_if_valid_def Let_def)
qed

text \<open>
  C1. In a novel whose index document is valid and has chapters, the chapter boundaries
  are iterated in strictly ascending order, and a story number belongs to the first
  chapter whose boundary is at least the number: \<open>_find_chapter_for_number\<close> returns the
  title of that chapter, and nothing exactly when the number exceeds every boundary. Then
  the validation of the novel returns an error list with the message that names the
  story. With the boundaries A: 1, B: 10, C: 20 the numbers 1, 5, 10, 15 go to A, B, B, C
  and 21 to no chapter.
\<close>

theorem Novel_chapter_partition:
  assumes "files e p \<noteq> None" and "md_to_json e p = Inr data"
    and "novel_index e data = Inr ([], el, hel, Some ch, has_chapters)"
    and "load_stories e (story_files e p) = Inr (msgs, stories)"
  shows "sorted_wrt (<) (map snd ch)
    \<and> (\<forall>n. case find_chapter_for_number n ch of
              None \<Rightarrow> (\<forall>tb\<in>set ch. snd tb < n)
            | Some t \<Rightarrow> (\<exists>b pre post. ch = pre @ (t, b) # post \<and> n \<le> b
                           \<and> (\<forall>tb\<in>set pre. snd tb < n)))
    \<and> (\<forall>s\<in>set stories. (\<forall>tb\<in>set ch. snd tb < s_number s) \<longrightarrow>
          (\<exists>es. Novel_load_if_valid e p = Inr (Errors es) \<and> chapter_error s \<in> set es))
    \<and> map (\<lambda>n. find_chapter_for_number n
                  [(ascii ''A'', 1), (ascii ''B'', 10), (ascii ''C'', 20)]) [1, 5, 10, 15, 21]
        = [Some (ascii ''A''), Some (ascii ''B''), Some (ascii ''B''), Some (ascii ''C''), None]"
proof -
  from novel_index_Some [OF assms(3)] have "sorted_wrt (<) (map snd ch)" by simp
  moreover have "\<forall>s\<in>set stories. (\<forall>tb\<in>set ch. snd tb < s_number s) \<longrightarrow>
          (\<exists>es. Novel_load_if_valid e p = Inr (Errors es) \<and> chapter_error s \<in> set es)"
    using Novel_load_if_valid_unassigned [OF assms] by blast
  moreover have "map (\<lambda>n. find_chapter_for_number n
                  [(ascii ''A'', 1), (ascii ''B'', 10), (ascii ''C'', 20)]) [1, 5, 10, 15, 21]
        = [Some (ascii ''A''), Some (ascii ''B''), Some (ascii ''B''), Some (ascii ''C''), None]"
    by simp
  ultimately show ?thesis using find_chapter_case [where bounds = ch] by blast
qed

lemma chapters_env_index:
  "files chapters_env (ascii ''b/index.md'') \<noteq> None
   \<and> md_to_json chapters_env (ascii ''b/index.md'') = Inr chapters_data"
  by (simp add: chapters_env_def chapters_data_def story_eval novel_eval str_eval dict_eval)

lemma chapters_env_novel_index:
  "novel_index chapters_env chapters_data
     = Inr ([], None, False, Some [(ascii ''A'', 1), (ascii ''B'', 10), (ascii ''C'', 20)], True)"
  by (simp add: chapters_env_def chapters_data_def story_eval novel_eval str_eval dict_eval int_eval)

lemma chapters_env_stories:
  "load_stories chapters_env (story_files chapters_env (ascii ''b/index.md''))
     = Inr ([], [\<lparr> s_path = ascii ''b/1.md'', s_title = ascii ''S'', s_number = 21,
                     s_content = ascii ''c'', s_length = 1 \<rparr>])"
  by (simp add: chapters_env_def story_eval novel_eval str_eval dict_eval int_eval)

lemma chapter_error_example:
  "chapter_error \<lparr> s_path = ascii ''b/1.md'', s_title = ascii ''S'', s_number = 21,
                   s_content = ascii ''c'', s_length = 1 \<rparr>
     = ascii ''Story 1.md (number=21) does not belong to any chapter''"
  by (simp add: chapter_error_def path_name_def int_str_def nat_str.simps ascii_def)


theorem Novel_chapter_partition_witness:
  "files chapters_env (ascii ''b/index.md'') \<noteq> None
   \<and> md_to_json chapters_env (ascii ''b/index.md'') = Inr chapters_data
   \<and> novel_index chapters_env chapters_data
       = Inr ([], None, False, Some [(ascii ''A'', 1), (ascii ''B'', 10), (ascii ''C'', 20)], True)
   \<and> load_stories chapters_env (story_files chapters_env (ascii ''b/index.md''))
       = Inr ([], [\<lparr> s_path = ascii ''b/1.md'', s_title = ascii ''S'', s_number = 21,
                       s_content = ascii ''c'', s_length = 1 \<rparr>])
   \<and> list_all (\<lambda>tb. snd tb < 21) [(ascii ''A'', 1), (ascii ''B'', 10), (ascii ''C'', 20 :: int)]
   \<and> (\<exists>es. Novel_load_if_valid chapters_env (ascii ''b/index.md'') = Inr (Errors es)
         \<and> ascii ''Story 1.md (number=21) does not belong to any chapter'' \<in> set es)"
proof -
  let ?s = "\<lparr> s_path = ascii ''b/1.md'', s_title = ascii ''S'', s_number = 21,
               s_content = ascii ''c'', s_length = 1 \<rparr>"
  let ?ch = "[(ascii ''A'', 1), (ascii ''B'', 10), (ascii ''C'', 20 :: int)]"
  note idx = chapters_env_index
  have beyond: "\<forall>tb\<in>set ?ch. snd tb < s_number ?s" by simp
  from Novel_chapter_partition
         [OF idx [THEN conjunct1] idx [THEN conjunct2] chapters_env_novel_index
             chapters_env_stories]
  have "\<forall>s\<in>set [?s]. (\<forall>tb\<in>set ?ch. snd tb < s_number s) \<longrightarrow>
          (\<exists>es. Novel_load_if_valid chapters_env (ascii ''b/index.md'') = Inr (Errors es)
                \<and> chapter_error s \<in> set es)"
    by blast
  with beyond
  have "\<exists>es. Novel_load_if_valid chapters_env (ascii ''b/index.md'') = Inr (Errors es)
                \<and> chapter_error ?s \<in> set es"
    by simp
  then have named: "\<exists>es. Novel_load_if_valid chapters_env (ascii ''b/index.md'') = Inr (Errors es)
         \<and> ascii ''Story 1.md (number=21) does not belong to any chapter'' \<in> set es"
    by (simp only: chapter_error_example)
  have beyond': "list_all (\<lambda>tb. snd tb < 21) ?ch" by simp
  from idx chapters_env_novel_index chapters_env_stories beyond' named
  show ?thesis by blast
qed

section \<open>The stories of a novel by chapter\<close>

lemma Novel_load_if_valid_Valid:
  assumes "Novel_load_if_valid e p = Inr (Valid n)"
  obtains data el hel stories where
    "md_to_json e p = Inr data"
    "novel_index e data = Inr ([], el, hel, n_chapters n, n_has_chapters n)"
    "load_stories e (story_files e p) = Inr ([], stories)"
    "duplicate_number_errors stories = []"
    "chapter_errors (n_has_chapters n) (n_chapters n) stories = []"
    "n_stories n = sort_key s_number stories"
    "n_status n = strip (dict_get_or_empty data (ascii ''status''))"
    "n_path n = p"
proof -
  from assms obtain data where data: "md_to_json e p = Inr data"
    by (auto simp: Novel_load_if_valid_def split: if_splits sum.splits exn.splits)
  with assms obtain errors el hel chd hc where
    idx: "novel_index e data = Inr (errors, el, hel, chd, hc)"
    by (cases "novel_index e data")
       (auto simp: Novel_load_if_valid_def split: if_splits)
  with assms data have errors: "errors = []"
    by (auto simp: Novel_load_if_valid_def split: if_splits)
  with assms data idx obtain msgs stories where
    st: "load_stories e (story_files e p) = Inr (msgs, stories)"
    by (cases "load_stories e (story_files e p)")
       (auto simp: Novel_load_if_valid_def split: if_splits)
  from assms data idx errors st
  have "msgs @ duplicate_number_errors stories @ chapter_errors hc chd stories = []"
    and n: "n_chapters n = chd" "n_has_chapters n = hc" "n_stories n = sort_key s_number stories"
      "n_status n = strip (dict_get_or_empty data (ascii ''status''))" "n_path n = p"
    by (auto simp: Novel_load_if_valid_def Let_def split: if_splits)
  then have "msgs = []" "duplicate_number_errors stories = []"
    "chapter_errors hc chd stories = []"
    by simp_all
  with data idx errors st n show ?thesis
    by (intro that [of data el hel stories]) simp_all
qed

lemma group_stories_filter:
  "group_stories bounds ordered stories =
     map (\<lambda>kv. (fst kv, snd kv @ filter (\<lambda>s. find_chapter_for_number (s_number s) bounds
                                              = Some (fst kv)) stories)) ordered"
proof (induction stories arbitrary: ordered)
  case Nil
  then show ?case by simp
next
  case (Cons s stories)
  show ?case
  proof (cases "find_chapter_for_number (s_number s) bounds")
    case None
    then show ?thesis by (simp add: Cons.IH)
  next
    case (Some c)
    then show ?thesis
      by (simp add: Cons.IH dict_append_def o_def cong: map_cong)
  qed
qed

lemma sorted_filter_split:
  "sorted (map f xs) \<Longrightarrow>
   filter (\<lambda>x. f x \<le> (b::int)) xs @ filter (\<lambda>x. \<not> f x \<le> b) xs = xs"
proof (induction xs)
  case Nil
  then show ?case by simp
next
  case (Cons x xs)
  show ?case
  proof (cases "f x \<le> b")
    case True
    with Cons show ?thesis by simp
  next
    case False
    with Cons.prems have "\<forall>y\<in>set xs. \<not> f y \<le> b" by auto
    then have "filter (\<lambda>x. f x \<le> b) xs = []" "filter (\<lambda>x. \<not> f x \<le> b) xs = xs"
      by (simp_all add: filter_empty_conv filter_id_conv)
    with False show ?thesis by simp
  qed
qed

lemma find_chapter_in_titles:
  "find_chapter_for_number n bounds = Some t \<Longrightarrow> t \<in> set (map fst bounds)"
  by (induction n bounds rule: find_chapter_for_number.induct) (auto split: if_splits)

lemma concat_groups:
  "sorted (map s_number ss) \<Longrightarrow> distinct (map fst bounds) \<Longrightarrow>
   \<forall>s\<in>set ss. find_chapter_for_number (s_number s) bounds \<noteq> None \<Longrightarrow>
   concat (map (\<lambda>t. filter (\<lambda>s. find_chapter_for_number (s_number s) bounds = Some t) ss)
            (map fst bounds)) = ss"
proof (induction bounds arbitrary: ss)
  case Nil
  then show ?case by (cases ss) auto
next
  case (Cons tb bounds)
  obtain t b where tb: "tb = (t, b)" by (cases tb)
  define A where "A = filter (\<lambda>s. s_number s \<le> b) ss"
  define B where "B = filter (\<lambda>s. \<not> s_number s \<le> b) ss"
  define F where
    "F = (\<lambda>t'. filter (\<lambda>s. find_chapter_for_number (s_number s) (tb # bounds) = Some t') ss)"
  define G where
    "G = (\<lambda>t'. filter (\<lambda>s. find_chapter_for_number (s_number s) bounds = Some t') B)"
  have ss: "A @ B = ss"
    unfolding A_def B_def using Cons.prems(1) by (rule sorted_filter_split)
  from Cons.prems(2) tb have t: "t \<notin> set (map fst bounds)" and d: "distinct (map fst bounds)"
    by simp_all
  have first: "F t = A"
    unfolding F_def A_def tb using t find_chapter_in_titles
    by (intro filter_cong) auto
  have later: "F t' = G t'" if "t' \<in> set (map fst bounds)" for t'
  proof -
    from that t have "t' \<noteq> t" by auto
    then show ?thesis
      unfolding F_def G_def B_def tb by (auto simp: filter_filter intro!: filter_cong)
  qed
  have "sorted (map s_number B)"
    unfolding B_def using Cons.prems(1) by (rule sorted_filter)
  moreover have "\<forall>s\<in>set B. find_chapter_for_number (s_number s) bounds \<noteq> None"
    using Cons.prems(3) unfolding B_def tb by auto
  ultimately have gb: "concat (map G (map fst bounds)) = B"
    unfolding G_def using Cons.IH d by blast
  have eq: "map F (map fst bounds) = map G (map fst bounds)"
    using later by (intro map_cong) auto
  have "concat (map F (map fst (tb # bounds))) = F t @ concat (map F (map fst bounds))"
    by (simp add: tb)
  also have "\<dots> = A @ B"
    by (simp only: eq gb first)
  finally show ?case unfolding F_def ss .
qed

lemma map_of_dict_set: "map_of (dict_set d k v) = (map_of d)(k \<mapsto> v)"
proof (induction d)
  case Nil
  then show ?case by simp
next
  case (Cons kv d)
  then show ?case by (cases kv) auto
qed

lemma Counter_fold:
  "map_of (foldl (\<lambda>d x. dict_set d x (case dict_get d x of None \<Rightarrow> 1 | Some c \<Rightarrow> c + 1)) d xs) x
     = (case map_of d x of
          None \<Rightarrow> if x \<in> set xs then Some (count_list xs x) else None
        | Some c \<Rightarrow> Some (c + count_list xs x))"
proof (induction xs arbitrary: d)
  case Nil
  then show ?case by (simp split: option.splits)
next
  case (Cons y ys)
  let ?d' = "dict_set d y (case dict_get d y of None \<Rightarrow> 1 | Some c \<Rightarrow> c + 1)"
  have step: "map_of ?d' = (map_of d)(y \<mapsto> (case map_of d y of None \<Rightarrow> 1 | Some c \<Rightarrow> c + 1))"
    by (simp add: map_of_dict_set dict_get_def)
  have "map_of (foldl (\<lambda>d x. dict_set d x (case dict_get d x of None \<Rightarrow> 1 | Some c \<Rightarrow> c + 1))
                  d (y # ys)) x
        = (case map_of ?d' x of
             None \<Rightarrow> if x \<in> set ys then Some (count_list ys x) else None
           | Some c \<Rightarrow> Some (c + count_list ys x))"
    by (simp add: Cons.IH)
  also have "\<dots> = (case map_of d x of
          None \<Rightarrow> if x \<in> set (y # ys) then Some (count_list (y # ys) x) else None
        | Some c \<Rightarrow> Some (c + count_list (y # ys) x))"
    unfolding step by (cases "x = y"; cases "map_of d x"; cases "map_of d y") auto
  finally show ?case .
qed

lemma duplicate_number_errors_distinct:
  assumes "duplicate_number_errors stories = []"
  shows "distinct (map s_number stories)"
proof -
  let ?nums = "map s_number stories"
  have "count_list ?nums x \<le> 1" for x
  proof (cases "x \<in> set ?nums")
    case True
    then have "map_of (Counter ?nums) x = Some (count_list ?nums x)"
      unfolding Counter_def by (simp add: Counter_fold)
    then have "(x, count_list ?nums x) \<in> set (Counter ?nums)"
      by (rule map_of_SomeD)
    with assms show ?thesis
      by (auto simp: duplicate_number_errors_def filter_empty_conv)
  next
    case False
    then show ?thesis by (simp add: count_list_0_iff)
  qed
  then show ?thesis
    unfolding distinct_count_atmost_1 count_mset
    by (metis One_nat_def count_list_0_iff le_SucE le_zero_eq)
qed

text \<open>
  C7. For a novel that \<open>Novel.load_if_valid\<close> returns, the stored stories are in
  strictly ascending order of number, and \<open>get_stories_ordered\<close> depends on the stored
  chapters, \<open>has_chapters\<close> and stories only. Without chapters it returns the stored
  stories. With chapters it returns a dict whose keys are the chapter titles in the
  stored order, which is ascending in the boundary numbers; its values, concatenated in
  that order, are the stored stories, each once; the stories of a chapter are in ascending
  order of number and are those the chapter rule assigns to it.
\<close>

theorem Novel_get_stories_ordered:
  assumes "Novel_load_if_valid e p = Inr (Valid n)"
  shows "sorted_wrt (<) (map s_number (n_stories n))
    \<and> (\<forall>n'. n_chapters n' = n_chapters n \<and> n_has_chapters n' = n_has_chapters n
              \<and> n_stories n' = n_stories n
           \<longrightarrow> get_stories_ordered n' = get_stories_ordered n)
    \<and> (case n_chapters n of
         None \<Rightarrow> get_stories_ordered n = Flat (n_stories n)
       | Some ch \<Rightarrow>
           sorted_wrt (<) (map snd ch)
           \<and> (\<exists>groups. get_stories_ordered n = ByChapter groups
                \<and> dict_keys groups = dict_keys ch
                \<and> concat (map snd groups) = n_stories n
                \<and> (\<forall>g\<in>set groups.
                      sorted_wrt (<) (map s_number (snd g))
                      \<and> (\<forall>s\<in>set (snd g).
                            find_chapter_for_number (s_number s) ch = Some (fst g)))))"
proof -
  from assms obtain data el hel stories where
    idx: "novel_index e data = Inr ([], el, hel, n_chapters n, n_has_chapters n)"
    and dup: "duplicate_number_errors stories = []"
    and che: "chapter_errors (n_has_chapters n) (n_chapters n) stories = []"
    and ss: "n_stories n = sort_key s_number stories"
    by (rule Novel_load_if_valid_Valid)
  have "distinct (map s_number (n_stories n))"
    unfolding ss using duplicate_number_errors_distinct [OF dup]
    by (metis mset_map mset_sort mset_eq_imp_distinct_iff)
  moreover have "sorted (map s_number (n_stories n))"
    unfolding ss by (rule sorted_sort_key)
  ultimately have strict: "sorted_wrt (<) (map s_number (n_stories n))"
    by (simp add: strict_sorted_iff)
  have pure: "\<forall>n'. n_chapters n' = n_chapters n \<and> n_has_chapters n' = n_has_chapters n
              \<and> n_stories n' = n_stories n
           \<longrightarrow> get_stories_ordered n' = get_stories_ordered n"
  proof (intro allI impI)
    fix n' :: novel
    assume "n_chapters n' = n_chapters n \<and> n_has_chapters n' = n_has_chapters n
              \<and> n_stories n' = n_stories n"
    then have "n_chapters n' = n_chapters n" "n_has_chapters n' = n_has_chapters n"
      "n_stories n' = n_stories n"
      by simp_all
    then show "get_stories_ordered n' = get_stories_ordered n"
      unfolding get_stories_ordered_def by (simp only:)
  qed
  have view: "case n_chapters n of
         None \<Rightarrow> get_stories_ordered n = Flat (n_stories n)
       | Some ch \<Rightarrow>
           sorted_wrt (<) (map snd ch)
           \<and> (\<exists>groups. get_stories_ordered n = ByChapter groups
                \<and> dict_keys groups = dict_keys ch
                \<and> concat (map snd groups) = n_stories n
                \<and> (\<forall>g\<in>set groups.
                      sorted_wrt (<) (map s_number (snd g))
                      \<and> (\<forall>s\<in>set (snd g).
                            find_chapter_for_number (s_number s) ch = Some (fst g))))"
  proof (cases "n_chapters n")
    case None
    then show ?thesis by (simp add: get_stories_ordered_def)
  next
    case (Some ch)
    from idx Some have "novel_index e data = Inr ([], el, hel, Some ch, n_has_chapters n)"
      by simp
    from novel_index_Some [OF this]
    have hc: "n_has_chapters n" "ch \<noteq> []" and dt: "distinct (map fst ch)"
      and sb: "sorted_wrt (<) (map snd ch)"
      by simp_all
    define groups where
      "groups = map (\<lambda>t. (t, filter (\<lambda>s. find_chapter_for_number (s_number s) ch = Some t)
                                (n_stories n))) (map fst ch)"
    have g: "get_stories_ordered n = ByChapter groups"
      using Some hc
      by (simp add: get_stories_ordered_def group_stories_filter groups_def dict_keys_def o_def)
    from che Some hc
    have "\<forall>s\<in>set stories. find_chapter_for_number (s_number s) ch \<noteq> None"
      by (auto simp: chapter_errors_def filter_empty_conv)
    then have all: "\<forall>s\<in>set (n_stories n). find_chapter_for_number (s_number s) ch \<noteq> None"
      unfolding ss by simp
    have "concat (map snd groups)
          = concat (map (\<lambda>t. filter (\<lambda>s. find_chapter_for_number (s_number s) ch = Some t)
                               (n_stories n)) (map fst ch))"
      by (simp add: groups_def o_def)
    also have "\<dots> = n_stories n"
      using \<open>sorted (map s_number (n_stories n))\<close> dt all by (rule concat_groups)
    finally have c: "concat (map snd groups) = n_stories n" .
    have k: "dict_keys groups = dict_keys ch"
      by (simp add: groups_def dict_keys_def o_def)
    have m: "\<forall>g\<in>set groups.
               sorted_wrt (<) (map s_number (snd g))
               \<and> (\<forall>s\<in>set (snd g). find_chapter_for_number (s_number s) ch = Some (fst g))"
    proof
      fix g assume "g \<in> set groups"
      then obtain t where
        "g = (t, filter (\<lambda>s. find_chapter_for_number (s_number s) ch = Some t) (n_stories n))"
        by (auto simp: groups_def)
      moreover have "sorted_wrt (<) (map s_number
            (filter (\<lambda>s. find_chapter_for_number (s_number s) ch = Some t) (n_stories n)))"
        using strict by (simp add: sorted_wrt_map sorted_wrt_filter)
      ultimately show "sorted_wrt (<) (map s_number (snd g))
               \<and> (\<forall>s\<in>set (snd g). find_chapter_for_number (s_number s) ch = Some (fst g))"
        by simp
    qed
    from Some sb g k c m show ?thesis by auto
  qed
  from strict pure view show ?thesis by blast
qed

lemma grouped_env_load:
  "Novel_load_if_valid grouped_env (ascii ''a/index.md'') = Inr (Valid grouped_novel)"
  by (simp add: grouped_env_def grouped_novel_def grouped_story1_def grouped_story5_def
        story_eval novel_eval str_eval dict_eval int_eval)

lemma grouped_novel_view:
  "get_stories_ordered grouped_novel
     = ByChapter [(ascii ''A'', [grouped_story1]), (ascii ''B'', [grouped_story5])]"
  by (simp add: grouped_novel_def grouped_story1_def grouped_story5_def
        get_stories_ordered_def dict_keys_def dict_append_def ascii_def)

theorem Novel_get_stories_ordered_witness:
  "Novel_load_if_valid grouped_env (ascii ''a/index.md'') = Inr (Valid grouped_novel)
   \<and> get_stories_ordered grouped_novel
       = ByChapter [(ascii ''A'', [grouped_story1]), (ascii ''B'', [grouped_story5])]
   \<and> sorted_wrt (<) (map s_number (n_stories grouped_novel))"
  using Novel_get_stories_ordered [OF grouped_env_load] grouped_env_load grouped_novel_view
  by blast

section \<open>The order of the novels on the top page\<close>

lemma novel_sort_key_le:
  "novel_sort_key e a \<le> novel_sort_key e b \<longleftrightarrow> precedes e a b"
  by (auto simp: novel_sort_key_def precedes_def)

lemma novel_sort_key_eq:
  "novel_sort_key e b = novel_sort_key e a \<longleftrightarrow> tied e a b"
  by (auto simp: novel_sort_key_def tied_def)

lemma novel_checks_status:
  assumes "novel_checks e data = []"
  shows "strip (dict_get_or_empty data (ascii ''status'')) \<in> set VALID_STATUS"
proof -
  from assms
  have m: "filter (\<lambda>key. \<not> dict_has data key)
             (set_iter e [ascii ''title'', ascii ''tags'', ascii ''status'', ascii ''outline''])
           = []"
    and s: "\<not> (dict_has data (ascii ''status'')
               \<and> strip (dict_get_or_empty data (ascii ''status'')) \<notin> set VALID_STATUS)"
    by (simp_all add: novel_checks_def Let_def split: if_splits)
  from m have "dict_has data (ascii ''status'')"
    by (simp add: filter_empty_conv)
  with s show ?thesis by simp
qed

lemma Novel_load_if_valid_status:
  assumes "Novel_load_if_valid e q = Inr (Valid n)"
  shows "n_status n \<in> set VALID_STATUS"
proof -
  from assms obtain data el hel where
    idx: "novel_index e data = Inr ([], el, hel, n_chapters n, n_has_chapters n)"
    and st: "n_status n = strip (dict_get_or_empty data (ascii ''status''))"
    by (rule Novel_load_if_valid_Valid)
  from idx have "novel_checks e data = []" by (rule novel_index_checks)
  then show ?thesis unfolding st by (rule novel_checks_status)
qed

lemma load_novels_valid:
  "load_novels e children = Inr (msgs, novels, dirs) \<Longrightarrow>
   \<forall>n\<in>set novels. \<exists>q. Novel_load_if_valid e q = Inr (Valid n)"
proof (induction children arbitrary: msgs novels dirs)
  case Nil
  then show ?case by simp
next
  case (Cons child rest)
  let ?index_md = "path_join child (ascii ''index.md'')"
  show ?case
  proof (cases "\<not> is_dir e child \<or> files e ?index_md = None")
    case True
    with Cons.prems have "load_novels e rest = Inr (msgs, novels, dirs)"
      by (simp add: Let_def)
    then show ?thesis by (rule Cons.IH)
  next
    case False
    with Cons.prems obtain r msgs' novels' dirs' where
      r: "Novel_load_if_valid e ?index_md = Inr r"
      and rest: "load_novels e rest = Inr (msgs', novels', dirs')"
      by (auto simp: Let_def split: sum.splits)
    from Cons.IH [OF rest]
    have ih: "\<forall>n\<in>set novels'. \<exists>q. Novel_load_if_valid e q = Inr (Valid n)" .
    show ?thesis
    proof (cases r)
      case (Valid n)
      with False Cons.prems r rest have "novels = n # novels'"
        by (auto simp: Let_def)
      with ih r Valid show ?thesis by auto
    next
      case (Errors es)
      with False Cons.prems r rest have "novels = novels'"
        by (auto simp: Let_def)
      with ih show ?thesis by simp
    qed
  qed
qed

lemma novel_last_updated_Max:
  assumes "list_all (\<lambda>q. getmtime e q \<noteq> None) (n_path n # map s_path (n_stories n))"
  shows "novel_last_updated e n
         = Max (set (map (\<lambda>q. the (getmtime e q)) (n_path n # map s_path (n_stories n))))"
proof -
  have m: "list_all (\<lambda>q. getmtime e q \<noteq> None) ps \<Longrightarrow>
           mtimes e ps = map (\<lambda>q. the (getmtime e q)) ps" for ps
    by (induction ps) (auto simp: mtimes_def)
  show ?thesis
    unfolding novel_last_updated_def Let_def m [OF assms]
    by (simp add: Max.set_eq_fold del: set_simps)
qed

text \<open>
  C4. The novels of a top page that \<open>TopPage.load_if_valid\<close> returns are the accepted
  novels, sorted: a novel updated later comes first, where the update time is the latest
  modification time of its index document and its story documents; among equal times the
  status of lower rank comes first, the ranks being 0 for the ongoing, 1 for the completed
  and 2 for the stopped status, one of which every accepted novel has; among equal times
  and ranks the smaller title comes first; and novels tied in all three keep the order in
  which they were found.
\<close>

theorem TopPage_load_if_valid_order:
  assumes "TopPage_load_if_valid e p = Inr (Valid t)"
  shows "(\<exists>novels dirs.
            load_novels e (iterdir_sorted e (path_parent p)) = Inr ([], novels, dirs)
          \<and> mset (t_novels t) = mset novels
          \<and> (\<forall>n. filter (tied e n) (t_novels t) = filter (tied e n) novels))
       \<and> sorted_wrt (precedes e) (t_novels t)
       \<and> (\<forall>n\<in>set (t_novels t).
            n_status n \<in> {status_ongoing, status_completed, status_stopped}
            \<and> (list_all (\<lambda>q. getmtime e q \<noteq> None) (n_path n # map s_path (n_stories n))
               \<longrightarrow> novel_last_updated e n
                   = Max (set (map (\<lambda>q. the (getmtime e q))
                                (n_path n # map s_path (n_stories n))))))
       \<and> status_order status_ongoing = 0 \<and> status_order status_completed = 1
       \<and> status_order status_stopped = 2"
proof -
  from assms obtain novels dirs where
    ld: "load_novels e (iterdir_sorted e (path_parent p)) = Inr ([], novels, dirs)"
    and tn: "t_novels t = sort_key (novel_sort_key e) novels"
    by (auto simp: TopPage_load_if_valid_def
             split: option.splits file_data.splits if_splits sum.splits prod.splits)
  have ms: "mset (t_novels t) = mset novels" unfolding tn by simp
  have stable: "\<forall>n. filter (tied e n) (t_novels t) = filter (tied e n) novels"
  proof
    fix n
    have "tied e n = (\<lambda>y. novel_sort_key e y = novel_sort_key e n)"
      by (simp add: novel_sort_key_eq fun_eq_iff)
    then show "filter (tied e n) (t_novels t) = filter (tied e n) novels"
      unfolding tn by (simp add: sort_key_stable)
  qed
  have "sorted (map (novel_sort_key e) (t_novels t))"
    unfolding tn by (rule sorted_sort_key)
  then have srt: "sorted_wrt (precedes e) (t_novels t)"
    by (simp add: sorted_map novel_sort_key_le)
  have "\<forall>n\<in>set novels. n_status n \<in> set VALID_STATUS"
    using load_novels_valid [OF ld] Novel_load_if_valid_status by blast
  then have st: "\<forall>n\<in>set (t_novels t).
                   n_status n \<in> {status_ongoing, status_completed, status_stopped}"
    unfolding tn by (simp add: VALID_STATUS_def)
  have ranks: "status_order status_ongoing = 0 \<and> status_order status_completed = 1
       \<and> status_order status_stopped = 2"
    by (simp add: status_order_def STATUS_ORDER_def dict_get_def
                  status_ongoing_def status_completed_def status_stopped_def)
  from ld ms stable srt st ranks novel_last_updated_Max [of e] show ?thesis by blast
qed

lemma order_env_load:
  "TopPage_load_if_valid order_env (ascii ''s/self_intro.md'') = Inr (Valid order_toppage)"
  by (simp add: order_env_def order_toppage_def order_novel_a_def order_novel_b_def
        toppage_eval story_eval novel_eval str_eval dict_eval int_eval)

theorem TopPage_load_if_valid_order_witness:
  "TopPage_load_if_valid order_env (ascii ''s/self_intro.md'') = Inr (Valid order_toppage)
   \<and> t_novels order_toppage = [order_novel_b, order_novel_a]
   \<and> precedes order_env order_novel_b order_novel_a"
  using TopPage_load_if_valid_order [OF order_env_load] order_env_load
  by (simp add: order_toppage_def)

end
